theory Spec2Isabelle
  imports Main
begin

section \<open>Strings and the library functions the package calls\<close>

text \<open>
  Go strings are byte sequences; they are modelled as \<open>string\<close> (a list of 8-bit
  characters). The functions below are the ones of packages \<open>strings\<close> and
  \<open>strconv\<close> that flagset calls, on bytes.
\<close>

definition HasPrefix :: "string \<Rightarrow> string \<Rightarrow> bool" where
  "HasPrefix s p = (take (length p) s = p)"

text \<open>\<open>strings.TrimLeft(s, cutset)\<close> and \<open>strings.Trim(s, cutset)\<close> for a cutset of
  one ASCII character: every leading (and trailing) occurrence is removed.\<close>

definition TrimLeft :: "string \<Rightarrow> char \<Rightarrow> string" where
  "TrimLeft s c = dropWhile (\<lambda>x. x = c) s"

definition Trim :: "string \<Rightarrow> char \<Rightarrow> string" where
  "Trim s c = rev (dropWhile (\<lambda>x. x = c) (rev (dropWhile (\<lambda>x. x = c) s)))"

text \<open>\<open>strings.Index(s, sub)\<close> for a one-character \<open>sub\<close>: the position of the first
  occurrence, or -1.\<close>

definition Index :: "string \<Rightarrow> char \<Rightarrow> int" where
  "Index s c = (if c \<in> set s then int (length (takeWhile (\<lambda>x. x \<noteq> c) s)) else -1)"

text \<open>The UTF-8 encodings of the code points for which \<open>unicode.IsSpace\<close> holds:
  tab, LF, VT, FF, CR, space, U+0085, U+00A0, U+1680, U+2000 to U+200A, U+2028, U+2029,
  U+202F, U+205F, U+3000.\<close>

definition spaceSeqs :: "string list" where
  "spaceSeqs =
     [[CHR 0x09], [CHR 0x0A], [CHR 0x0B], [CHR 0x0C], [CHR 0x0D], [CHR 0x20],
      [CHR 0xC2, CHR 0x85], [CHR 0xC2, CHR 0xA0], [CHR 0xE1, CHR 0x9A, CHR 0x80],
      [CHR 0xE2, CHR 0x80, CHR 0x80], [CHR 0xE2, CHR 0x80, CHR 0x81],
      [CHR 0xE2, CHR 0x80, CHR 0x82], [CHR 0xE2, CHR 0x80, CHR 0x83],
      [CHR 0xE2, CHR 0x80, CHR 0x84], [CHR 0xE2, CHR 0x80, CHR 0x85],
      [CHR 0xE2, CHR 0x80, CHR 0x86], [CHR 0xE2, CHR 0x80, CHR 0x87],
      [CHR 0xE2, CHR 0x80, CHR 0x88], [CHR 0xE2, CHR 0x80, CHR 0x89],
      [CHR 0xE2, CHR 0x80, CHR 0x8A], [CHR 0xE2, CHR 0x80, CHR 0xA8],
      [CHR 0xE2, CHR 0x80, CHR 0xA9], [CHR 0xE2, CHR 0x80, CHR 0xAF],
      [CHR 0xE2, CHR 0x81, CHR 0x9F], [CHR 0xE3, CHR 0x80, CHR 0x80]]"

text \<open>The byte length of the white-space rune at the start of \<open>s\<close> among the given
  encodings, 0 when \<open>s\<close> does not start with one.\<close>

definition spaceLen :: "string list \<Rightarrow> string \<Rightarrow> nat" where
  "spaceLen seqs s = (case find (\<lambda>q. take (length q) s = q) seqs of
                        None \<Rightarrow> 0 | Some q \<Rightarrow> length q)"

function trimLeftSeqs :: "string list \<Rightarrow> string \<Rightarrow> string" where
  "trimLeftSeqs seqs s =
     (if spaceLen seqs s = 0 \<or> s = [] then s else trimLeftSeqs seqs (drop (spaceLen seqs s) s))"
  by pat_completeness auto
termination
  by (relation "measure (\<lambda>(seqs, s). length s)") auto

declare trimLeftSeqs.simps [simp del]

text \<open>\<open>strings.TrimSpace\<close>: leading white-space runes are decoded from the front,
  trailing ones from the back.\<close>

definition TrimSpace :: "string \<Rightarrow> string" where
  "TrimSpace s = rev (trimLeftSeqs (map rev spaceSeqs) (rev (trimLeftSeqs spaceSeqs s)))"

text \<open>\<open>strings.Split(s, sep)\<close> for a non-empty separator (the only use in the package is
  guarded by \<open>flag.delimiter != ""\<close>): the pieces between the non-overlapping
  occurrences of \<open>sep\<close>, found left to right. \<open>cur\<close> is the piece being read.\<close>

function SplitFrom :: "string \<Rightarrow> string \<Rightarrow> string \<Rightarrow> string list" where
  "SplitFrom sep cur [] = [cur]"
| "SplitFrom sep cur (c # cs) =
     (if take (length sep) (c # cs) = sep
      then cur # SplitFrom sep [] (drop (length sep - 1) cs)
      else SplitFrom sep (cur @ [c]) cs)"
  by pat_completeness auto
termination
  by (relation "measure (\<lambda>(sep, cur, s). length s)") auto

definition Split :: "string \<Rightarrow> string \<Rightarrow> string list" where
  "Split s sep = SplitFrom sep [] s"

subsection \<open>strconv\<close>

definition isDigit :: "char \<Rightarrow> bool" where
  "isDigit c = ((48::nat) \<le> of_char c \<and> of_char c \<le> (57::nat))"

definition digitsVal :: "string \<Rightarrow> int" where
  "digitsVal s = foldl (\<lambda>n c. 10 * n + (of_char c - 48)) 0 s"

text \<open>\<open>strconv.ParseUint(s, 10, bitSize)\<close>: a non-empty run of decimal digits whose
  value fits in \<open>bitSize\<close> bits; \<open>None\<close> stands for a non-nil error. \<open>uintOf\<close> is the
  parsed number as an integer.\<close>

definition uintOf :: "string \<Rightarrow> nat \<Rightarrow> int option" where
  "uintOf s bitSize =
     (if s = [] \<or> \<not> list_all isDigit s then None
      else if digitsVal s \<ge> 2 ^ bitSize then None
      else Some (digitsVal s))"

definition ParseUint :: "string \<Rightarrow> nat \<Rightarrow> nat option" where
  "ParseUint s bitSize = map_option nat (uintOf s bitSize)"

text \<open>\<open>strconv.ParseInt(s, 10, bitSize)\<close>: an optional sign, then the digits (parsed as
  64-bit unsigned), within the signed range of \<open>bitSize\<close> bits.\<close>

definition ParseInt :: "string \<Rightarrow> nat \<Rightarrow> int option" where
  "ParseInt s bitSize =
     (if s = [] then None
      else let neg = (hd s = CHR ''-'');
               body = (if hd s = CHR ''+'' \<or> hd s = CHR ''-'' then tl s else s)
           in (case uintOf body 64 of
                 None \<Rightarrow> None
               | Some un \<Rightarrow>
                   if \<not> neg \<and> un \<ge> 2 ^ (bitSize - 1) then None
                   else if neg \<and> un > 2 ^ (bitSize - 1) then None
                   else Some (if neg then - un else un)))"

text \<open>Decimal rendering of an integer, for the \<open>%d\<close> verb.\<close>

fun showNat :: "nat \<Rightarrow> string" where
  "showNat n = (if n < 10 then [char_of (48 + n)]
                else showNat (n div 10) @ [char_of (48 + n mod 10)])"

declare showNat.simps [simp del]

definition showInt :: "int \<Rightarrow> string" where
  "showInt i = (if i < 0 then CHR ''-'' # showNat (nat (- i)) else showNat (nat i))"

text \<open>The \<open>%s\<close> rendering of a string slice: \<open>[a b c]\<close>.\<close>

fun joinWith :: "string \<Rightarrow> string list \<Rightarrow> string" where
  "joinWith sep [] = []"
| "joinWith sep [x] = x"
| "joinWith sep (x # y # ys) = x @ sep @ joinWith sep (y # ys)"

definition showStrings :: "string list \<Rightarrow> string" where
  "showStrings xs = ''['' @ joinWith '' '' xs @ '']''"

section \<open>Data model\<close>

text \<open>
  The host of the process: the environment (\<open>os.LookupEnv\<close>), the argument vector
  (\<open>os.Args\<close>), and what the Go library and runtime decide, as parameters of the model:
  \<open>strconv.ParseFloat(s, 64)\<close> (\<open>None\<close> is a non-nil error) over a type \<open>'f\<close> of
  float64 values, \<open>strings.ToLower\<close>, and the capacity \<open>growslice c\<close> that \<open>append\<close> gives
  the new array of a slice of capacity \<open>c\<close> that is full and grows by one element.
\<close>

record 'f Host =
  environ :: "string \<Rightarrow> string option"
  osArgs :: "string list"
  ParseFloat :: "string \<Rightarrow> 'f option"
  ToLower :: "string \<Rightarrow> string"
  growslice :: "nat \<Rightarrow> nat"

text \<open>\<open>os.LookupEnv\<close>: the empty key is never set.\<close>

definition LookupEnv :: "'f Host \<Rightarrow> string \<Rightarrow> string option" where
  "LookupEnv h key = (if key = [] then None else environ h key)"

text \<open>The value of a destination field. \<open>int\<close> and \<open>int64\<close> fields hold a \<open>VInt\<close>,
  \<open>uint\<close> and \<open>uint64\<close> fields a \<open>VUint\<close>; a nil slice is the empty list.\<close>

datatype 'f fval =
    VBool bool | VFloat 'f | VInt int | VUint nat | VString string
  | VBools "bool list" | VFloats "'f list" | VInts "int list" | VUints "nat list"
  | VStrings "string list"

text \<open>A \<open>reflect.Type\<close> as the package reads it: its rendering (\<open>String()\<close>), whether its
  kind is \<open>Struct\<close>, and its fields (\<open>NumField\<close>, \<open>Field(i)\<close>), each with its name, its tag
  (\<open>Tag.Get\<close>) and its type. A named type renders as \<open>pkg.Name\<close>, whatever its kind.\<close>

datatype rtype = RType (typeString: string) (isStruct: bool) (typeFieldList: "rfield list")
  and rfield = RField (fieldName: string) (fieldTag: "string \<Rightarrow> string") (fieldType: rtype)

text \<open>A slice of ints: a window of \<open>sl_len\<close> elements on the array \<open>sl_array\<close> of the
  heap, which has \<open>sl_cap\<close> elements. The nil slice has no array and capacity 0.\<close>

record slice =
  sl_array :: nat
  sl_len :: nat
  sl_cap :: nat

definition nilSlice :: slice where
  "nilSlice = \<lparr>sl_array = 0, sl_len = 0, sl_cap = 0\<rparr>"

definition sliceElems :: "int list list \<Rightarrow> slice \<Rightarrow> int list" where
  "sliceElems heap sl = (if sl_cap sl = 0 then [] else take (sl_len sl) (heap ! sl_array sl))"

text \<open>\<open>append(sl, x)\<close>: while the array has room the element is written into it, behind
  the window, and the new slice shares the array with \<open>sl\<close>; a full slice gets a new array,
  of capacity \<open>growslice\<close> (at least one more than the length), with its elements copied.\<close>

definition appendInt :: "'f Host \<Rightarrow> int list list \<Rightarrow> slice \<Rightarrow> int \<Rightarrow> slice \<times> int list list" where
  "appendInt h heap sl x =
     (if sl_len sl < sl_cap sl
      then (sl\<lparr>sl_len := sl_len sl + 1\<rparr>,
            heap[sl_array sl := (heap ! sl_array sl)[sl_len sl := x]])
      else (let c = max (sl_len sl + 1) (growslice h (sl_cap sl));
                a = sliceElems heap sl @ x # replicate (c - sl_len sl - 1) 0
            in (\<lparr>sl_array = length heap, sl_len = sl_len sl + 1, sl_cap = c\<rparr>, heap @ [a])))"

text \<open>The struct \<open>structField\<close> of the package, its two index paths being slices.\<close>

record rawField =
  rf_field :: rfield
  rf_index :: slice
  rf_parentIndex :: slice

text \<open>\<open>typeToStructField\<close>: the fields of a struct type in order, each followed by the
  fields of its own type when that renders with the prefix \<open>struct\<close>. The index path of a
  field is \<open>append(parentIndex, i)\<close>, so the paths of the fields of one struct may share
  an array. \<open>NumField\<close> panics for a type that is no struct: the result \<open>None\<close>.
  \<open>fieldsFrom\<close> is the loop, from the field number \<open>i\<close>. The type given is never nil.\<close>

fun typeToStructField ::
    "'f Host \<Rightarrow> rtype \<Rightarrow> slice \<Rightarrow> int list list \<Rightarrow> (rawField list \<times> int list list) option"
  and fieldsFrom ::
    "'f Host \<Rightarrow> rfield list \<Rightarrow> nat \<Rightarrow> slice \<Rightarrow> int list list
       \<Rightarrow> (rawField list \<times> int list list) option"
where
  "typeToStructField h (RType str st fs) parentIndex heap =
     (if st then fieldsFrom h fs 0 parentIndex heap else None)"
| "fieldsFrom h [] i parentIndex heap = Some ([], heap)"
| "fieldsFrom h (RField n tag ty # fs) i parentIndex heap =
     (case appendInt h heap parentIndex (int i) of
        (ix, heap1) \<Rightarrow>
          (case (if HasPrefix (typeString ty) ''struct''
                 then typeToStructField h ty ix heap1 else Some ([], heap1)) of
             None \<Rightarrow> None
           | Some (nested, heap2) \<Rightarrow>
               (case fieldsFrom h fs (i + 1) parentIndex heap2 of
                  None \<Rightarrow> None
                | Some (rest, heap3) \<Rightarrow>
                    Some (\<lparr>rf_field = RField n tag ty, rf_index = ix, rf_parentIndex = parentIndex\<rparr>
                            # nested @ rest, heap3))))"

text \<open>One entry of the list that \<open>typeToStructField\<close> returns, as the rest of the package
  reads it: the field's name, its tag (\<open>Tag.Get\<close>), the rendering of its type
  (\<open>Type.String()\<close>), its index path and the index path of the enclosing struct field
  (\<open>[]\<close> is nil), both as the arrays hold them once the whole list is built.\<close>

record structField =
  sf_name :: string
  sf_tag :: "string \<Rightarrow> string"
  sf_type :: string
  sf_index :: "int list"
  sf_parentIndex :: "int list"

definition structFieldsOf :: "'f Host \<Rightarrow> rtype \<Rightarrow> structField list option" where
  "structFieldsOf h ty =
     (case typeToStructField h ty nilSlice [] of
        None \<Rightarrow> None
      | Some (raw, heap) \<Rightarrow>
          Some (map (\<lambda>r. \<lparr> sf_name = fieldName (rf_field r), sf_tag = fieldTag (rf_field r),
                           sf_type = typeString (fieldType (rf_field r)),
                           sf_index = sliceElems heap (rf_index r),
                           sf_parentIndex = sliceElems heap (rf_parentIndex r) \<rparr>) raw))"

text \<open>The struct that \<open>Options.Flags\<close> points to, as reflection sees it: whether the value
  is a pointer to a struct (its \<open>%T\<close> rendering starts with \<open>*struct\<close>), the type of the
  struct, the value of the field at every index path (\<open>FieldByIndex\<close>), and whether it
  can be set (\<open>CanSet\<close>: the fields of an unexported field cannot).\<close>

record 'f Dest =
  isStructPtr :: bool
  structType :: rtype
  fieldValue :: "int list \<Rightarrow> 'f fval"
  canSet :: "int list \<Rightarrow> bool"

record 'f Options =
  Flags :: "'f Dest option"
  Args :: "string list option"

text \<open>The structs \<open>Flag\<close>, \<open>Arg\<close> and \<open>Command\<close>. The fields of a record carry a
  prefix (\<open>f_\<close>, \<open>a_\<close>, \<open>c_\<close>), as the three structs share field names. A Go
  \<open>error\<close> is its message, \<open>None\<close> is nil. \<open>f_args\<close> is a slice of pointers into
  \<open>flagSet.args\<close>: it holds the positions of the pointed arguments, and the nil slice is
  \<open>[]\<close> (the code only ever appends to it).\<close>

record Flag =
  f_id :: int
  f_name :: string
  f_short :: string
  f_long :: string
  f_command :: string
  f_description :: string
  f_required :: bool
  f_env :: string
  f_delimiter :: string
  f_valueDefault :: string
  f_valueType :: string
  f_valueBy :: string
  f_kind :: string
  f_fieldIndex :: "int list"
  f_parentIndex :: "int list"
  f_parentID :: int
  f_commandID :: int
  f_args :: "nat list"
  f_updatedBy :: "string list"
  f_err :: "string option"

record Arg =
  a_id :: int
  a_arg :: string
  a_name :: string
  a_value :: string
  a_dash :: string
  a_hasEq :: bool
  a_unnamed :: bool
  a_unset :: bool
  a_kind :: string
  a_flagID :: int
  a_commandID :: int
  a_parentID :: int
  a_indexFrom :: int
  a_indexTo :: int
  a_updatedBy :: "string list"
  a_err :: "string option"

record Command =
  c_id :: int
  c_command :: string
  c_flagID :: int
  c_parentID :: int
  c_argID :: int
  c_indexFrom :: int
  c_indexTo :: int
  c_updatedBy :: "string list"

record 'f FlagSet =
  flags :: "Flag list"
  flagsRaw :: "'f Dest"
  args :: "Arg list"
  argsRaw :: "string list"
  argsParsed :: bool
  commands :: "Command list"
  commandsParsed :: bool

text \<open>Modelled from the spec: the variable \<open>supportedFlagTypes\<close> is declared outside the
  given sources. The spec lists the bindable types (bool, float64, int, int64, uint, uint64,
  string and their list forms); \<open>struct\<close> is the type \<open>structFieldToFlag\<close> gives every
  command, which validation accepts.\<close>

definition supportedFlagTypes :: "string list" where
  "supportedFlagTypes =
     [''bool'', ''float64'', ''int'', ''int64'', ''uint'', ''uint64'', ''string'',
      ''[]bool'', ''[]float64'', ''[]int'', ''[]int64'', ''[]uint'', ''[]uint64'', ''[]string'',
      ''struct'']"

section \<open>Lookups\<close>

definition lookupFlagByID :: "'f FlagSet \<Rightarrow> int \<Rightarrow> Flag option" where
  "lookupFlagByID flagSet i = (if i < 0 then None else find (\<lambda>v. f_id v = i) (flags flagSet))"

text \<open>The code compares the \<open>fmt.Sprint\<close> renderings of the two index slices, which are
  equal exactly when the slices are.\<close>

definition lookupFlagByIndex :: "'f FlagSet \<Rightarrow> int list \<Rightarrow> Flag option" where
  "lookupFlagByIndex flagSet ix =
     (if ix = [] then None else find (\<lambda>v. f_fieldIndex v = ix) (flags flagSet))"

section \<open>Writing the destination: setFlag and unsetFlag\<close>

definition parseFailure :: "string \<Rightarrow> string \<Rightarrow> string" where
  "parseFailure v ty = ''failed to parse '' @ [CHR 0x27] @ v @ [CHR 0x27] @ '' as '' @ ty"

definition invalidType :: "string \<Rightarrow> string" where
  "invalidType ty = ''invalid type '' @ ty @ ''. Supported types: '' @ showStrings supportedFlagTypes"

text \<open>The slice a field holds, for \<open>reflect.Append\<close>. Go's typing makes the field of a
  flag of type \<open>[]T\<close> hold a \<open>[]T\<close>; the other cases cannot arise.\<close>

definition boolsOf :: "'f fval \<Rightarrow> bool list" where
  "boolsOf v = (case v of VBools xs \<Rightarrow> xs | _ \<Rightarrow> [])"

definition floatsOf :: "'f fval \<Rightarrow> 'f list" where
  "floatsOf v = (case v of VFloats xs \<Rightarrow> xs | _ \<Rightarrow> [])"

definition intsOf :: "'f fval \<Rightarrow> int list" where
  "intsOf v = (case v of VInts xs \<Rightarrow> xs | _ \<Rightarrow> [])"

definition uintsOf :: "'f fval \<Rightarrow> nat list" where
  "uintsOf v = (case v of VUints xs \<Rightarrow> xs | _ \<Rightarrow> [])"

definition stringsOf :: "'f fval \<Rightarrow> string list" where
  "stringsOf v = (case v of VStrings xs \<Rightarrow> xs | _ \<Rightarrow> [])"

text \<open>The \<open>switch flag.valueType\<close> of \<open>setFlag\<close>: the error it returns, or the new value
  of the field whose value is \<open>cur\<close> (\<open>cur\<close> itself where the code writes nothing).\<close>

definition setValue :: "'f Host \<Rightarrow> string \<Rightarrow> string \<Rightarrow> 'f fval \<Rightarrow> string + 'f fval" where
  "setValue h ty v cur =
    (if ty = ''bool'' then
       (if v \<noteq> ''true'' \<and> v \<noteq> ''false'' then Inl (parseFailure v ''bool'')
        else if v = ''true'' then Inr (VBool True)
        else if v = ''false'' then Inr (VBool False) else Inr cur)
     else if ty = ''float64'' then
       (if v \<noteq> [] then (case ParseFloat h v of None \<Rightarrow> Inl (parseFailure v ''float64'')
                                            | Some x \<Rightarrow> Inr (VFloat x)) else Inr cur)
     else if ty = ''int'' then
       (if v \<noteq> [] then (case ParseInt v 64 of None \<Rightarrow> Inl (parseFailure v ''int'')
                                         | Some x \<Rightarrow> Inr (VInt x)) else Inr cur)
     else if ty = ''int64'' then
       (if v \<noteq> [] then (case ParseInt v 64 of None \<Rightarrow> Inl (parseFailure v ''int64'')
                                         | Some x \<Rightarrow> Inr (VInt x)) else Inr cur)
     else if ty = ''uint'' then
       (if v \<noteq> [] then (case ParseUint v 64 of None \<Rightarrow> Inl (parseFailure v ''uint'')
                                          | Some x \<Rightarrow> Inr (VUint x)) else Inr cur)
     else if ty = ''uint64'' then
       (if v \<noteq> [] then (case ParseUint v 64 of None \<Rightarrow> Inl (parseFailure v ''uint64'')
                                          | Some x \<Rightarrow> Inr (VUint x)) else Inr cur)
     else if ty = ''string'' then Inr (VString v)
     else if ty = ''[]bool'' then
       (if v \<noteq> ''true'' \<and> v \<noteq> ''false'' then Inl (parseFailure v ''bool'')
        else if v = ''true'' then Inr (VBools (boolsOf cur @ [True]))
        else if v = ''false'' then Inr (VBools (boolsOf cur @ [False])) else Inr cur)
     else if ty = ''[]float64'' then
       (if v \<noteq> [] then (case ParseFloat h v of None \<Rightarrow> Inl (parseFailure v ''float64'')
                                            | Some x \<Rightarrow> Inr (VFloats (floatsOf cur @ [x])))
        else Inr cur)
     else if ty = ''[]int'' then
       (if v \<noteq> [] then (case ParseInt v 32 of None \<Rightarrow> Inl (parseFailure v ''int'')
                                         | Some x \<Rightarrow> Inr (VInts (intsOf cur @ [x])))
        else Inr cur)
     else if ty = ''[]int64'' then
       (if v \<noteq> [] then (case ParseInt v 64 of None \<Rightarrow> Inl (parseFailure v ''int64'')
                                         | Some x \<Rightarrow> Inr (VInts (intsOf cur @ [x])))
        else Inr cur)
     else if ty = ''[]uint'' then
       (if v \<noteq> [] then (case ParseUint v 32 of None \<Rightarrow> Inl (parseFailure v ''uint'')
                                          | Some x \<Rightarrow> Inr (VUints (uintsOf cur @ [x])))
        else Inr cur)
     else if ty = ''[]uint64'' then
       (if v \<noteq> [] then (case ParseUint v 64 of None \<Rightarrow> Inl (parseFailure v ''uint64'')
                                          | Some x \<Rightarrow> Inr (VUints (uintsOf cur @ [x])))
        else Inr cur)
     else if ty = ''[]string'' then Inr (VStrings (stringsOf cur @ [v]))
     else Inl (invalidType ty))"

text \<open>Writing the value \<open>x\<close> into the field at index path \<open>ix\<close>.\<close>

definition writeField :: "int list \<Rightarrow> 'f fval \<Rightarrow> 'f FlagSet \<Rightarrow> 'f FlagSet" where
  "writeField ix x flagSet =
     flagSet\<lparr>flagsRaw := (flagsRaw flagSet)\<lparr>fieldValue := (fieldValue (flagsRaw flagSet))(ix := x)\<rparr>\<rparr>"

definition setFlag :: "'f Host \<Rightarrow> int \<Rightarrow> string \<Rightarrow> 'f FlagSet \<Rightarrow> string option \<times> 'f FlagSet" where
  "setFlag h i v flagSet =
     (if i < 0 then (Some ''flag id is required'', flagSet)
      else case lookupFlagByID flagSet i of
        None \<Rightarrow> (Some (''no flag for id '' @ showInt i), flagSet)
      | Some flag \<Rightarrow>
          if \<not> canSet (flagsRaw flagSet) (f_fieldIndex flag)
          then (Some (''flag '' @ f_name flag @ '' can'' @ [CHR 0x27] @ ''t be set''), flagSet)
          else (case setValue h (f_valueType flag) v
                       (fieldValue (flagsRaw flagSet) (f_fieldIndex flag)) of
                  Inl e \<Rightarrow> (Some e, flagSet)
                | Inr x \<Rightarrow> (None, writeField (f_fieldIndex flag) x flagSet)))"

text \<open>The \<open>switch flag.valueType\<close> of \<open>unsetFlag\<close>: the zero value of the type.\<close>

definition zeroValue :: "string \<Rightarrow> string + ('f::zero) fval" where
  "zeroValue ty =
    (if ty = ''bool'' then Inr (VBool False)
     else if ty = ''float64'' then Inr (VFloat 0)
     else if ty = ''int'' then Inr (VInt 0)
     else if ty = ''int64'' then Inr (VInt 0)
     else if ty = ''uint'' then Inr (VUint 0)
     else if ty = ''uint64'' then Inr (VUint 0)
     else if ty = ''string'' then Inr (VString [])
     else if ty = ''[]bool'' then Inr (VBools [])
     else if ty = ''[]float64'' then Inr (VFloats [])
     else if ty = ''[]int'' then Inr (VInts [])
     else if ty = ''[]int64'' then Inr (VInts [])
     else if ty = ''[]uint'' then Inr (VUints [])
     else if ty = ''[]uint64'' then Inr (VUints [])
     else if ty = ''[]string'' then Inr (VStrings [])
     else Inl (invalidType ty))"

definition unsetFlag :: "int \<Rightarrow> ('f::zero) FlagSet \<Rightarrow> string option \<times> 'f FlagSet" where
  "unsetFlag i flagSet =
     (if i < 0 then (Some ''flag id is required'', flagSet)
      else case lookupFlagByID flagSet i of
        None \<Rightarrow> (Some (''no flag for id '' @ showInt i), flagSet)
      | Some flag \<Rightarrow>
          if \<not> canSet (flagsRaw flagSet) (f_fieldIndex flag)
          then (Some (''flag '' @ f_name flag @ '' can'' @ [CHR 0x27] @ ''t be set''), flagSet)
          else (case zeroValue (f_valueType flag) of
                  Inl e \<Rightarrow> (Some e, flagSet)
                | Inr x \<Rightarrow> (None, writeField (f_fieldIndex flag) x flagSet)))"

section \<open>Building and checking the flags\<close>

text \<open>The characters the regular expression \<open>[^a-zA-Z0-9-_.]+\<close> leaves in place; every
  other byte is deleted by \<open>ReplaceAllString\<close>.\<close>

definition argChar :: "char \<Rightarrow> bool" where
  "argChar c = (let n = (of_char c :: nat) in
     (97 \<le> n \<and> n \<le> 122) \<or> (65 \<le> n \<and> n \<le> 90) \<or> (48 \<le> n \<and> n \<le> 57)
     \<or> c = CHR ''-'' \<or> c = CHR ''_'' \<or> c = CHR ''.'')"

definition cleanupArg :: "string \<Rightarrow> string" where
  "cleanupArg s = filter argChar s"

definition structFieldToFlag :: "'f Host \<Rightarrow> structField \<Rightarrow> Flag" where
  "structFieldToFlag h sf =
     (let flag = \<lparr> f_id = -1,
                   f_name = sf_name sf,
                   f_short = cleanupArg (TrimSpace (sf_tag sf ''short'')),
                   f_long = cleanupArg (TrimSpace (sf_tag sf ''long'')),
                   f_command = cleanupArg (TrimSpace (sf_tag sf ''command'')),
                   f_description = TrimSpace (sf_tag sf ''description''),
                   f_required = (sf_tag sf ''required'' = ''true''),
                   f_env = TrimSpace (sf_tag sf ''env''),
                   f_delimiter = sf_tag sf ''delimiter'',
                   f_valueDefault = TrimSpace (sf_tag sf ''default''),
                   f_valueType = sf_type sf,
                   f_valueBy = [],
                   f_kind = ''arg'',
                   f_fieldIndex = [],
                   f_parentIndex = [],
                   f_parentID = -1,
                   f_commandID = -1,
                   f_args = [],
                   f_updatedBy = [],
                   f_err = None \<rparr>
      in if HasPrefix (f_valueType flag) ''struct''
         then flag\<lparr> f_valueType := ''struct'', f_kind := ''command'',
                     f_command := (if f_command flag = [] then ToLower h (f_name flag)
                                   else f_command flag) \<rparr>
         else flag)"

text \<open>The state of the loop of \<open>checkFlags\<close>: the errors so far and the three maps from
  a name to the field name and parent (the rendering of \<open>parentIndex\<close>) last stored.\<close>

record checkState =
  ck_result :: "string list"
  ck_shorts :: "string \<Rightarrow> (string \<times> int list) option"
  ck_longs :: "string \<Rightarrow> (string \<times> int list) option"
  ck_commands :: "string \<Rightarrow> (string \<times> int list) option"

definition alreadyDefined :: "string \<Rightarrow> string \<Rightarrow> string \<Rightarrow> string \<Rightarrow> string" where
  "alreadyDefined what n field other =
     what @ '' '' @ n @ '' in '' @ field @ '' field is already defined in '' @ other @ '' field''"

definition checkShort :: "Flag \<Rightarrow> checkState \<Rightarrow> checkState" where
  "checkShort v st =
     (if f_short v \<noteq> [] then
        (case ck_shorts st (f_short v) of
           Some sf \<Rightarrow>
             if snd sf = f_parentIndex v
             then st\<lparr>ck_result := ck_result st
                       @ [alreadyDefined ''short argument'' (f_short v) (f_name v) (fst sf)]\<rparr>
             else if length (f_short v) > 1
             then st\<lparr>ck_result := ck_result st
                       @ [''short argument '' @ f_short v @ '' in '' @ f_name v
                          @ '' field must be one character long'']\<rparr>
             else st\<lparr>ck_shorts := (ck_shorts st)(f_short v \<mapsto> (f_name v, f_parentIndex v))\<rparr>
         | None \<Rightarrow>
             if length (f_short v) > 1
             then st\<lparr>ck_result := ck_result st
                       @ [''short argument '' @ f_short v @ '' in '' @ f_name v
                          @ '' field must be one character long'']\<rparr>
             else st\<lparr>ck_shorts := (ck_shorts st)(f_short v \<mapsto> (f_name v, f_parentIndex v))\<rparr>)
      else st)"

definition checkLong :: "Flag \<Rightarrow> checkState \<Rightarrow> checkState" where
  "checkLong v st =
     (if f_long v \<noteq> [] then
        (case ck_longs st (f_long v) of
           Some lf \<Rightarrow>
             if snd lf = f_parentIndex v
             then st\<lparr>ck_result := ck_result st
                       @ [alreadyDefined ''long argument'' (f_long v) (f_name v) (fst lf)]\<rparr>
             else st\<lparr>ck_longs := (ck_longs st)(f_long v \<mapsto> (f_name v, f_parentIndex v))\<rparr>
         | None \<Rightarrow> st\<lparr>ck_longs := (ck_longs st)(f_long v \<mapsto> (f_name v, f_parentIndex v))\<rparr>)
      else st)"

definition checkCommand :: "Flag \<Rightarrow> checkState \<Rightarrow> checkState" where
  "checkCommand v st =
     (if f_command v \<noteq> [] then
        (case ck_commands st (f_command v) of
           Some cf \<Rightarrow>
             if snd cf = f_parentIndex v
             then st\<lparr>ck_result := ck_result st
                       @ [alreadyDefined ''command'' (f_command v) (f_name v) (fst cf)]\<rparr>
             else st\<lparr>ck_commands := (ck_commands st)(f_command v \<mapsto> (f_name v, f_parentIndex v))\<rparr>
         | None \<Rightarrow>
             st\<lparr>ck_commands := (ck_commands st)(f_command v \<mapsto> (f_name v, f_parentIndex v))\<rparr>)
      else st)"

definition checkType :: "Flag \<Rightarrow> checkState \<Rightarrow> checkState" where
  "checkType v st =
     (if f_valueType v \<in> set supportedFlagTypes then st
      else st\<lparr>ck_result := ck_result st @ [invalidType (f_valueType v)]\<rparr>)"

definition checkFlag :: "checkState \<Rightarrow> Flag \<Rightarrow> checkState" where
  "checkFlag st v = checkType v (checkCommand v (checkLong v (checkShort v st)))"

definition checkFlags :: "Flag list \<Rightarrow> string list" where
  "checkFlags fs =
     ck_result (foldl checkFlag
        \<lparr>ck_result = [], ck_shorts = Map.empty, ck_longs = Map.empty, ck_commands = Map.empty\<rparr> fs)"

text \<open>The second loop of \<open>structToFlags\<close>: the parent id of \<open>v\<close> is the id of the last
  flag whose field index is the parent index of \<open>v\<close>.\<close>

definition setParentID :: "Flag list \<Rightarrow> Flag \<Rightarrow> Flag" where
  "setParentID result v =
     (if f_parentIndex v \<noteq> []
      then foldl (\<lambda>v vv. if f_parentIndex v = f_fieldIndex vv then v\<lparr>f_parentID := f_id vv\<rparr> else v)
                 v result
      else v)"

definition fieldFlags :: "'f Host \<Rightarrow> structField list \<Rightarrow> Flag list" where
  "fieldFlags h fs =
     filter (\<lambda>flag. \<not> (f_short flag = [] \<and> f_long flag = [] \<and> f_kind flag \<noteq> ''command''))
       (map (\<lambda>(k, field). (structFieldToFlag h field)
                \<lparr> f_id := int k, f_fieldIndex := sf_index field,
                  f_parentIndex := sf_parentIndex field \<rparr>)
            (enumerate 0 fs))"

text \<open>\<open>structToFlags\<close>, for the type of the struct. A panic of \<open>typeToStructField\<close> is the
  result \<open>Inl\<close> with the message of the panic.\<close>

definition numFieldPanic :: string where
  "numFieldPanic = ''reflect: NumField of non-struct type''"

definition structToFlags :: "'f Host \<Rightarrow> rtype \<Rightarrow> string list + Flag list" where
  "structToFlags h ty =
     (case structFieldsOf h ty of
        None \<Rightarrow> Inl [numFieldPanic]
      | Some fs \<Rightarrow>
          let result = fieldFlags h fs;
              errs = checkFlags result
          in if errs \<noteq> [] then Inl errs else Inr (map (setParentID result) result))"

section \<open>Command segmentation: parseCommands\<close>

text \<open>The first loop: one command per flag of kind \<open>command\<close>, in the order of the flags.
  \<open>lookup\<close> maps the id of a flag to the id of its command.\<close>

record cmdBuild =
  cb_commands :: "Command list"
  cb_lookup :: "int \<Rightarrow> int option"
  cb_cnt :: int

definition buildCommand :: "'f FlagSet \<Rightarrow> cmdBuild \<Rightarrow> Flag \<Rightarrow> cmdBuild" where
  "buildCommand flagSet st flag =
     (if f_kind flag = ''command'' then
        (let newCmd = \<lparr> c_id = cb_cnt st, c_command = f_command flag, c_flagID = f_id flag,
                         c_parentID = -1, c_argID = -1, c_indexFrom = -1, c_indexTo = -1,
                         c_updatedBy = [] \<rparr>;
             lookup = (cb_lookup st)(f_id flag \<mapsto> cb_cnt st);
             newCmd' = (if f_parentIndex flag \<noteq> [] then
                          (case lookupFlagByIndex flagSet (f_parentIndex flag) of
                             Some parentFlag \<Rightarrow>
                               (case lookup (f_id parentFlag) of
                                  Some pid \<Rightarrow> newCmd\<lparr>c_parentID := pid\<rparr>
                                | None \<Rightarrow> newCmd)
                           | None \<Rightarrow> newCmd)
                        else newCmd)
         in \<lparr> cb_commands = cb_commands st @ [newCmd'], cb_lookup = lookup,
              cb_cnt = cb_cnt st + 1 \<rparr>)
      else st)"

text \<open>The body of the second loop for the token \<open>argVal\<close> at position \<open>argIndex\<close>: the
  commands are tried in order (\<open>is\<close> are the positions still to try) and the loop stops
  at the first one that is accepted. A nested command is accepted when some command
  (\<open>j\<close> ranges over all of them) was found before \<open>argIndex\<close>.\<close>

fun locateCommand :: "int \<Rightarrow> string \<Rightarrow> nat list \<Rightarrow> Command list \<Rightarrow> Command list" where
  "locateCommand argIndex argVal [] cmds = cmds"
| "locateCommand argIndex argVal (i # is) cmds =
     (let cmd = cmds ! i in
      if c_argID cmd = -1 \<and> c_command cmd = argVal
         \<and> (if c_parentID cmd \<noteq> -1
             then list_ex (\<lambda>c. c_argID c \<noteq> -1 \<and> c_argID c < argIndex) cmds
             else True)
      then (let cmds1 = cmds[i := cmd\<lparr> c_indexFrom := argIndex, c_argID := argIndex,
                                       c_updatedBy := c_updatedBy cmd @ [''found in the arguments''] \<rparr>]
            in if i > 0 \<and> c_argID (cmds1 ! (i - 1)) \<noteq> -1
               then cmds1[i - 1 := (cmds1 ! (i - 1))
                            \<lparr> c_indexTo := argIndex,
                              c_updatedBy := c_updatedBy (cmds1 ! (i - 1))
                                             @ [''previously found in the arguments''] \<rparr>]
               else cmds1)
      else locateCommand argIndex argVal is cmds)"

definition locateCommands :: "string list \<Rightarrow> Command list \<Rightarrow> Command list" where
  "locateCommands raw cmds =
     foldl (\<lambda>cs (argIndex, argVal). locateCommand (int argIndex) argVal [0 ..< length cs] cs)
           cmds (enumerate 0 raw)"

text \<open>The body of the third loop, which closes the range of command \<open>i\<close>.\<close>

definition closeRange :: "nat \<Rightarrow> Command list \<Rightarrow> nat \<Rightarrow> Command list" where
  "closeRange lenRaw cmds i =
     (let cmd = cmds ! i in
      if c_argID cmd = -1 \<or> c_indexTo cmd \<noteq> -1 then cmds
      else if i + 1 = length cmds
      then cmds[i := cmd\<lparr>c_indexTo := int lenRaw, c_updatedBy := c_updatedBy cmd @ [''last loop'']\<rparr>]
      else (let cmd1 = (case find (\<lambda>c. c_indexFrom c \<noteq> -1) (drop (i + 1) cmds) of
                          Some c \<Rightarrow> cmd\<lparr> c_indexTo := c_indexFrom c,
                                         c_updatedBy := c_updatedBy cmd @ [''next command''] \<rparr>
                        | None \<Rightarrow> cmd);
                cmd2 = (if c_indexTo cmd1 = -1
                        then cmd1\<lparr> c_indexTo := int lenRaw,
                                   c_updatedBy := c_updatedBy cmd1 @ [''last command''] \<rparr>
                        else cmd1)
            in cmds[i := cmd2]))"

text \<open>The fourth loop: the first flag with the id \<open>cmd.flagID\<close> gets the command's id.\<close>

fun setCommandID :: "Command \<Rightarrow> Flag list \<Rightarrow> Flag list" where
  "setCommandID cmd [] = []"
| "setCommandID cmd (flag # fs) =
     (if c_flagID cmd = f_id flag then flag\<lparr>f_commandID := c_id cmd\<rparr> # fs
      else flag # setCommandID cmd fs)"

definition parseCommands :: "'f FlagSet \<Rightarrow> 'f FlagSet" where
  "parseCommands flagSet =
     (let built = cb_commands (foldl (buildCommand flagSet)
                     \<lparr>cb_commands = [], cb_lookup = Map.empty, cb_cnt = 0\<rparr> (flags flagSet));
          located = locateCommands (argsRaw flagSet) built;
          closed = foldl (closeRange (length (argsRaw flagSet))) located [0 ..< length located]
      in flagSet\<lparr> commands := closed,
                  flags := foldl (\<lambda>fs cmd. setCommandID cmd fs) (flags flagSet) closed,
                  commandsParsed := True \<rparr>)"

section \<open>Argument segmentation: parseArgs\<close>

text \<open>The inner loop over the commands for a new argument: it stops at the command found
  at the argument's position, or at the first command whose range holds the argument.\<close>

fun classifyArg :: "Arg \<Rightarrow> Command list \<Rightarrow> Arg" where
  "classifyArg newArg [] = newArg"
| "classifyArg newArg (cmd # cmds) =
     (if a_id newArg = c_argID cmd
      then newArg\<lparr> a_name := a_arg newArg, a_kind := ''command'', a_flagID := c_flagID cmd,
                   a_commandID := c_id cmd, a_indexFrom := c_indexFrom cmd,
                   a_indexTo := c_indexTo cmd,
                   a_updatedBy := a_updatedBy newArg @ [''command argID matched argIndex''] \<rparr>
      else if c_indexFrom cmd < a_indexFrom newArg \<and> c_indexTo cmd \<ge> a_indexTo newArg
      then newArg\<lparr> a_commandID := c_id cmd,
                   a_updatedBy := a_updatedBy newArg @ [''in command range''] \<rparr>
      else classifyArg newArg cmds)"

definition newArg :: "Command list \<Rightarrow> nat \<times> string \<Rightarrow> Arg" where
  "newArg cmds p =
     (let argIndex = int (fst p);
          a = classifyArg
                \<lparr> a_id = argIndex, a_arg = snd p, a_name = [], a_value = [], a_dash = [],
                  a_hasEq = False, a_unnamed = False, a_unset = False, a_kind = [],
                  a_flagID = -1, a_commandID = -1, a_parentID = -1, a_indexFrom = argIndex,
                  a_indexTo = argIndex + 1, a_updatedBy = [], a_err = None \<rparr> cmds
      in if a_kind a = [] then a\<lparr>a_kind := ''arg''\<rparr> else a)"

text \<open>The quote stripping applied to a value: \<open>strings.Trim\<close> with the quote the value
  starts with.\<close>

definition stripQuotes :: "string \<Rightarrow> string" where
  "stripQuotes v = (if HasPrefix v [CHR 0x22] then Trim v (CHR 0x22)
                    else if HasPrefix v [CHR 0x27] then Trim v (CHR 0x27)
                    else v)"

definition markUnset :: "Arg \<Rightarrow> Arg" where
  "markUnset arg = (if a_hasEq arg \<and> a_value arg = [] then arg\<lparr>a_unset := True\<rparr> else arg)"

text \<open>The body of the second loop of \<open>parseArgs\<close>, for the argument at position \<open>i\<close>.
  The arguments are pointers, so the loop sees the kind a previous step gave to it.\<close>

definition parseArg :: "Arg list \<Rightarrow> nat \<Rightarrow> Arg list" where
  "parseArg as i =
     (let arg = as ! i in
      if a_kind arg \<noteq> ''arg'' then as
      else
        let arg1 = arg\<lparr>a_name := TrimSpace (TrimLeft (a_arg arg) (CHR ''-''))\<rparr>;
            arg2 = (if HasPrefix (a_arg arg1) ''--'' then arg1\<lparr>a_dash := ''--''\<rparr>
                    else if HasPrefix (a_arg arg1) ''-'' then arg1\<lparr>a_dash := ''-''\<rparr>
                    else arg1)
        in if a_dash arg2 = [] then as[i := arg2\<lparr>a_unnamed := True\<rparr>]
           else
             let ieq = Index (a_name arg2) (CHR ''='');
                 iqo0 = Index (a_name arg2) (CHR 0x22);
                 iqo = (if iqo0 = -1 then Index (a_name arg2) (CHR 0x27) else iqo0)
             in if ieq > -1 \<and> (ieq < iqo \<or> iqo = -1)
                then as[i := markUnset (arg2
                       \<lparr> a_hasEq := True,
                         a_name := take (nat ieq) (a_name arg2),
                         a_value := stripQuotes (drop (nat ieq + 1) (a_name arg2)) \<rparr>)]
                else if i + 1 < length as
                        \<and> a_kind (as ! (i + 1)) = ''arg''
                        \<and> \<not> HasPrefix (a_arg (as ! (i + 1))) ''-''
                then (let nextArg = as ! (i + 1);
                          arg3 = arg2\<lparr> a_value := stripQuotes (a_arg nextArg),
                                      a_indexTo := a_indexTo nextArg \<rparr>
                      in (as[i := markUnset arg3])
                           [i + 1 := nextArg\<lparr> a_kind := ''argval'', a_value := a_value arg3,
                                              a_parentID := a_id arg3 \<rparr>])
                else as[i := markUnset arg2])"

text \<open>The third loop of \<open>parseArgs\<close> binds arguments to flags. \<open>i\<close> is the position of
  the flag and \<open>a\<close> the position of the argument.\<close>

definition bindNested :: "nat \<Rightarrow> 'f FlagSet \<Rightarrow> nat \<Rightarrow> 'f FlagSet" where
  "bindNested i s a =
     (let flag = flags s ! i; pArg = args s ! a in
      if a_name pArg \<noteq> [] \<and> (f_short flag = a_name pArg \<or> f_long flag = a_name pArg)
      then s\<lparr> flags := (flags s)[i := flag
                 \<lparr> f_updatedBy := f_updatedBy flag @ [''matched argument''],
                   f_commandID := a_commandID pArg,
                   f_args := f_args flag @ [a] \<rparr>],
               args := (args s)[a := pArg
                 \<lparr> a_flagID := f_id flag,
                   a_updatedBy := a_updatedBy pArg @ [''matched flag''] \<rparr>] \<rparr>
      else s)"

definition bindTop :: "nat \<Rightarrow> 'f FlagSet \<Rightarrow> nat \<Rightarrow> 'f FlagSet" where
  "bindTop i s a =
     (let flag = flags s ! i; arg = args s ! a in
      if a_commandID arg = -1 \<and> a_name arg \<noteq> []
         \<and> (f_short flag = a_name arg \<or> f_long flag = a_name arg)
      then s\<lparr> flags := (flags s)[i := flag
                 \<lparr> f_updatedBy := f_updatedBy flag @ [''top level flag''],
                   f_args := f_args flag @ [a] \<rparr>],
               args := (args s)[a := arg
                 \<lparr> a_updatedBy := a_updatedBy arg @ [''top level arg''],
                   a_flagID := f_id flag \<rparr>] \<rparr>
      else s)"

definition bindFlag :: "'f FlagSet \<Rightarrow> nat \<Rightarrow> 'f FlagSet" where
  "bindFlag s i =
     (let flag = flags s ! i in
      if f_kind flag = ''command'' then
        (case find (\<lambda>cmd. c_argID cmd \<noteq> -1 \<and> c_flagID cmd = f_id flag) (commands s) of
           Some cmd \<Rightarrow>
             s\<lparr>flags := (flags s)[i := flag
                 \<lparr>f_args := f_args flag
                    @ filter (\<lambda>a. a_commandID (args s ! a) = c_id cmd) [0 ..< length (args s)]\<rparr>]\<rparr>
         | None \<Rightarrow> s)
      else if f_kind flag = ''arg'' then
        (if f_parentID flag \<noteq> -1 then
           (case lookupFlagByIndex s (f_parentIndex flag) of
              Some parentFlag \<Rightarrow> foldl (bindNested i) s (f_args parentFlag)
            | None \<Rightarrow> s)
         else foldl (bindTop i) s [0 ..< length (args s)])
      else s)"

definition parseArgsBody :: "'f FlagSet \<Rightarrow> 'f FlagSet" where
  "parseArgsBody s =
     (let as0 = map (newArg (commands s)) (enumerate 0 (argsRaw s));
          as1 = foldl parseArg as0 [0 ..< length as0];
          s1 = foldl bindFlag (s\<lparr>args := as1\<rparr>) [0 ..< length (flags s)]
      in s1\<lparr>argsParsed := True\<rparr>)"

definition parseArgs :: "'f FlagSet \<Rightarrow> 'f FlagSet" where
  "parseArgs s =
     (if \<not> commandsParsed s then parseArgsBody (parseCommands s)
      else if argsParsed s then s
      else parseArgsBody s)"

section \<open>Binding and resolution: New\<close>

definition setArgErr :: "nat \<Rightarrow> string \<Rightarrow> 'f FlagSet \<Rightarrow> 'f FlagSet" where
  "setArgErr a e s = s\<lparr>args := (args s)[a := (args s ! a)\<lparr>a_err := Some e\<rparr>]\<rparr>"

definition setFlagErr :: "nat \<Rightarrow> string \<Rightarrow> 'f FlagSet \<Rightarrow> 'f FlagSet" where
  "setFlagErr i e s = s\<lparr>flags := (flags s)[i := (flags s ! i)\<lparr>f_err := Some e\<rparr>]\<rparr>"

definition setValueBy :: "nat \<Rightarrow> string \<Rightarrow> 'f FlagSet \<Rightarrow> 'f FlagSet" where
  "setValueBy i by s = s\<lparr>flags := (flags s)[i := (flags s ! i)\<lparr>f_valueBy := by\<rparr>]\<rparr>"

definition needsValue :: "Arg \<Rightarrow> string" where
  "needsValue arg = ''argument '' @ a_dash arg @ a_name arg @ '' needs a value''"

text \<open>\<open>if err := flagSet.setFlag(flag.id, v); err != nil { arg.err = err }\<close> for the flag
  at position \<open>i\<close> and the argument at position \<open>a\<close>.\<close>

definition setFlagFromArg :: "'f Host \<Rightarrow> nat \<Rightarrow> nat \<Rightarrow> string \<Rightarrow> 'f FlagSet \<Rightarrow> 'f FlagSet" where
  "setFlagFromArg h i a v s =
     (case setFlag h (f_id (flags s ! i)) v s of
        (Some e, s') \<Rightarrow> setArgErr a e s'
      | (None, s') \<Rightarrow> s')"

text \<open>One piece of a delimited value: trimmed, and ignored when empty.\<close>

definition setPiece :: "'f Host \<Rightarrow> nat \<Rightarrow> nat \<Rightarrow> 'f FlagSet \<Rightarrow> string \<Rightarrow> 'f FlagSet" where
  "setPiece h i a s v =
     (let v' = TrimSpace v in if v' = [] then s else setFlagFromArg h i a v' s)"

definition isBoolType :: "string \<Rightarrow> bool" where
  "isBoolType ty = (ty = ''bool'' \<or> ty = ''[]bool'')"

definition isStringType :: "string \<Rightarrow> bool" where
  "isStringType ty = (ty = ''string'' \<or> ty = ''[]string'')"

text \<open>The body of the inner loop of the first loop of \<open>New\<close>: the flag at position \<open>i\<close>
  takes the value of the argument at position \<open>a\<close>.\<close>

definition applyArg :: "'f Host \<Rightarrow> nat \<Rightarrow> 'f FlagSet \<Rightarrow> nat \<Rightarrow> 'f FlagSet" where
  "applyArg h i s0 a =
     (if a_kind (args s0 ! a) \<noteq> ''arg'' then s0
      else
        let s1 = setValueBy i ''arg'' s0;
            ty = f_valueType (flags s1 ! i);
            s2 = (if isBoolType ty \<and> a_value (args s1 ! a) = [] \<and> \<not> a_unset (args s1 ! a)
                  then s1\<lparr>args := (args s1)[a := (args s1 ! a)\<lparr>a_value := ''true''\<rparr>]\<rparr>
                  else s1);
            arg = args s2 ! a;
            s3 = (if a_value arg = [] then
                    (if (isBoolType ty \<and> a_unset arg) \<or> (isStringType ty \<and> \<not> a_unset arg)
                     then setArgErr a (needsValue arg) s2
                     else if \<not> isBoolType ty \<and> \<not> isStringType ty
                     then setArgErr a (needsValue arg) s2
                     else s2)
                  else s2)
        in if a_err (args s3 ! a) \<noteq> None then s3
           else if f_delimiter (flags s3 ! i) \<noteq> [] \<and> HasPrefix ty ''[]''
           then foldl (setPiece h i a) s3 (Split (a_value (args s3 ! a)) (f_delimiter (flags s3 ! i)))
           else setFlagFromArg h i a (a_value (args s3 ! a)) s3)"

definition applyFlag :: "'f Host \<Rightarrow> 'f FlagSet \<Rightarrow> nat \<Rightarrow> 'f FlagSet" where
  "applyFlag h s i =
     (if f_kind (flags s ! i) \<noteq> ''arg'' then s
      else foldl (applyArg h i) s (f_args (flags s ! i)))"

definition applyValues :: "'f Host \<Rightarrow> 'f FlagSet \<Rightarrow> 'f FlagSet" where
  "applyValues h s = foldl (applyFlag h) s [0 ..< length (flags s)]"

text \<open>The second loop of \<open>New\<close>: a flag set by an argument is unset for every argument of
  it that has an error; any other flag takes the environment variable, else the default.\<close>

definition unsetOnError :: "nat \<Rightarrow> ('f::zero) FlagSet \<Rightarrow> nat \<Rightarrow> 'f FlagSet" where
  "unsetOnError i s a =
     (if a_err (args s ! a) \<noteq> None then
        (case unsetFlag (f_id (flags s ! i)) s of
           (Some e, s') \<Rightarrow> setFlagErr i e s'
         | (None, s') \<Rightarrow> s')
      else s)"

definition setFlagFromSource :: "'f Host \<Rightarrow> nat \<Rightarrow> string \<Rightarrow> string \<Rightarrow> 'f FlagSet \<Rightarrow> 'f FlagSet" where
  "setFlagFromSource h i by v s =
     (let s1 = setValueBy i by s in
      case setFlag h (f_id (flags s1 ! i)) v s1 of
        (Some e, s') \<Rightarrow> setFlagErr i e s'
      | (None, s') \<Rightarrow> s')"

definition resolveFlag :: "'f Host \<Rightarrow> ('f::zero) FlagSet \<Rightarrow> nat \<Rightarrow> 'f FlagSet" where
  "resolveFlag h s i =
     (let flag = flags s ! i in
      if f_valueBy flag = ''arg'' then foldl (unsetOnError i) s (f_args flag)
      else (case LookupEnv h (f_env flag) of
              Some ev \<Rightarrow> setFlagFromSource h i ''env'' ev s
            | None \<Rightarrow>
                if f_valueDefault flag \<noteq> []
                then setFlagFromSource h i ''default'' (f_valueDefault flag) s
                else s))"

definition resolveValues :: "'f Host \<Rightarrow> ('f::zero) FlagSet \<Rightarrow> 'f FlagSet" where
  "resolveValues h s = foldl (resolveFlag h) s [0 ..< length (flags s)]"

text \<open>The third loop of \<open>New\<close>: the required flags without arguments.\<close>

definition requiredMessage :: "Flag \<Rightarrow> string \<Rightarrow> string" where
  "requiredMessage flag command =
     (let arg = (if f_short flag \<noteq> [] then ''-'' @ f_short flag
                 else if f_long flag \<noteq> [] then ''--'' @ f_long flag
                 else []);
          eMsg = ''argument '' @ arg @ '' is required''
      in if command \<noteq> [] then eMsg @ '' for '' @ command @ '' command'' else eMsg)"

definition requireFlag :: "'f FlagSet \<Rightarrow> nat \<Rightarrow> 'f FlagSet" where
  "requireFlag s i =
     (let flag = flags s ! i in
      if \<not> f_required flag then s
      else if f_args flag \<noteq> [] then s
      else if f_kind flag = ''command''
      then setFlagErr i (''command '' @ f_command flag @ '' is required'') s
      else if f_kind flag = ''arg'' then
        (let parentFlag = (if f_parentIndex flag \<noteq> []
                           then lookupFlagByIndex s (f_parentIndex flag) else None);
             command = (case parentFlag of Some pf \<Rightarrow> f_command pf | None \<Rightarrow> [])
         in if (case parentFlag of Some pf \<Rightarrow> f_args pf = [] | None \<Rightarrow> False) then s
            else setFlagErr i (requiredMessage flag command) s)
      else s)"

definition checkRequired :: "'f FlagSet \<Rightarrow> 'f FlagSet" where
  "checkRequired s = foldl requireFlag s [0 ..< length (flags s)]"

text \<open>\<open>New\<close> up to the call of \<open>parseArgs\<close>: the checks of the options, the flags, and
  the segmentation of the arguments (the copy of \<open>options.Args\<close>, or of \<open>os.Args\<close>).\<close>

definition segment :: "'f Host \<Rightarrow> 'f Options \<Rightarrow> string + 'f FlagSet" where
  "segment h options =
     (case Flags options of
        None \<Rightarrow> Inl ''flags are required''
      | Some d \<Rightarrow>
          if \<not> isStructPtr d then Inl ''flags must be a struct pointer''
          else
            (case structToFlags h (structType d) of
               Inl errs \<Rightarrow> Inl (hd errs)
             | Inr fl \<Rightarrow>
                 Inr (parseArgs
                   \<lparr> flags = fl, flagsRaw = d, args = [],
                     argsRaw = (case Args options of None \<Rightarrow> osArgs h | Some as \<Rightarrow> as),
                     argsParsed = False, commands = [], commandsParsed = False \<rparr>)))"

text \<open>\<open>New\<close>: the segmentation, then the three loops over the flags.\<close>

definition New :: "('f::zero) Host \<Rightarrow> 'f Options \<Rightarrow> string + 'f FlagSet" where
  "New h options =
     (case segment h options of
        Inl e \<Rightarrow> Inl e
      | Inr p \<Rightarrow> Inr (checkRequired (resolveValues h (applyValues h p))))"

text \<open>The query \<open>Errors\<close>: for every flag, its own error and then the errors of its
  arguments.\<close>

definition flagErrors :: "'f FlagSet \<Rightarrow> Flag \<Rightarrow> string list" where
  "flagErrors s flag =
     (case f_err flag of Some e \<Rightarrow> [e] | None \<Rightarrow> [])
     @ concat (map (\<lambda>a. case a_err (args s ! a) of Some e \<Rightarrow> [e] | None \<Rightarrow> []) (f_args flag))"

definition Errors :: "'f FlagSet \<Rightarrow> string list" where
  "Errors s = concat (map (flagErrors s) (flags s))"

section \<open>Notions used in the proofs\<close>

text \<open>A flag without the two fields the loops of \<open>New\<close> write, and an argument without
  the two fields they write.\<close>

definition flagDecl :: "Flag \<Rightarrow> Flag" where
  "flagDecl f = f\<lparr>f_valueBy := [], f_err := None\<rparr>"

definition argDecl :: "Arg \<Rightarrow> Arg" where
  "argDecl a = a\<lparr>a_value := [], a_err := None\<rparr>"


section \<open>Concrete inputs\<close>

text \<open>A tag given by its key/value pairs, a field, a type that is no struct, an anonymous
  struct type (only the prefix \<open>struct\<close> of its rendering is read), a host without
  environment whose float parser rejects everything and whose slices double their
  capacity (1 from 0) as the Go runtime does for small slices of ints, the fields that
  \<open>typeToStructField\<close> returns there, and a destination whose fields are all settable.\<close>

definition tagOf :: "(string \<times> string) list \<Rightarrow> string \<Rightarrow> string" where
  "tagOf kvs k = (case map_of kvs k of Some v \<Rightarrow> v | None \<Rightarrow> [])"

definition mkField :: "string \<Rightarrow> (string \<times> string) list \<Rightarrow> rtype \<Rightarrow> rfield" where
  "mkField n kvs ty = RField n (tagOf kvs) ty"

definition basicType :: "string \<Rightarrow> rtype" where
  "basicType str = RType str False []"

definition structOf :: "rfield list \<Rightarrow> rtype" where
  "structOf fs = RType ''struct {}'' True fs"

definition exHost :: "int Host" where
  "exHost = \<lparr>environ = (\<lambda>_. None), osArgs = [], ParseFloat = (\<lambda>_. None), ToLower = (\<lambda>s. s),
                growslice = (\<lambda>c. if c = 0 then 1 else 2 * c)\<rparr>"

definition fieldsOf :: "rtype \<Rightarrow> structField list" where
  "fieldsOf ty = (case structFieldsOf exHost ty of Some fs \<Rightarrow> fs | None \<Rightarrow> [])"

definition exDest :: "rtype \<Rightarrow> int fval \<Rightarrow> int Dest" where
  "exDest ty v = \<lparr>isStructPtr = True, structType = ty, fieldValue = (\<lambda>_. v),
                   canSet = (\<lambda>_. True)\<rparr>"

definition exOptions :: "rtype \<Rightarrow> int fval \<Rightarrow> string list \<Rightarrow> int Options" where
  "exOptions ty v as = \<lparr>Flags = Some (exDest ty v), Args = Some as\<rparr>"

text \<open>\<open>struct { A bool `short:"x"`; Cmd struct { B bool `short:"x"` } `command:"cmd"`;
  C bool `short:"x"` }\<close>\<close>

definition dupFields :: rtype where
  "dupFields = structOf
     [mkField ''A'' [(''short'', ''x'')] (basicType ''bool''),
      mkField ''Cmd'' [(''command'', ''cmd'')]
        (structOf [mkField ''B'' [(''short'', ''x'')] (basicType ''bool'')]),
      mkField ''C'' [(''short'', ''x'')] (basicType ''bool'')]"

text \<open>\<open>struct { Foo struct { Bar struct{} `command:"bar"` } `command:"foo"`;
  Baz struct{} `command:"baz"` }\<close>\<close>

definition nestedFields :: rtype where
  "nestedFields = structOf
     [mkField ''Foo'' [(''command'', ''foo'')]
        (structOf [mkField ''Bar'' [(''command'', ''bar'')] (structOf [])]),
      mkField ''Baz'' [(''command'', ''baz'')] (structOf [])]"

text \<open>\<open>struct { X struct { B struct { X struct{} `command:"x"` } `command:"b"` }
  `command:"x"` }\<close>\<close>

definition sameNameFields :: rtype where
  "sameNameFields = structOf
     [mkField ''X'' [(''command'', ''x'')]
        (structOf [mkField ''B'' [(''command'', ''b'')]
           (structOf [mkField ''X'' [(''command'', ''x'')] (structOf [])])])]"

text \<open>The name, parent command, position and range of every command of a flag set.\<close>

definition commandView :: "string + 'f FlagSet \<Rightarrow> (string \<times> int \<times> int \<times> int \<times> int) list" where
  "commandView r =
     (case r of Inl e \<Rightarrow> []
      | Inr s \<Rightarrow> map (\<lambda>c. (c_command c, c_parentID c, c_argID c, c_indexFrom c, c_indexTo c))
                       (commands s))"

text \<open>A flag without the fields the segmentation writes, and the property that every
  argument position held by a flag is a position of \<open>flagSet.args\<close>.\<close>

definition flagStatic :: "Flag \<Rightarrow> Flag" where
  "flagStatic f = f\<lparr>f_commandID := 0, f_args := [], f_updatedBy := []\<rparr>"

definition argsInRange :: "'f FlagSet \<Rightarrow> bool" where
  "argsInRange s = (\<forall>f \<in> set (flags s). \<forall>a \<in> set (f_args f). a < length (args s))"

text \<open>The ids of the flags are distinct and not negative: what \<open>structToFlags\<close> gives.\<close>

definition wfFlags :: "'f FlagSet \<Rightarrow> bool" where
  "wfFlags s = (distinct (map f_id (flags s)) \<and> (\<forall>x \<in> set (map f_id (flags s)). 0 \<le> x))"

text \<open>No other flag has the index path of the flag at position \<open>i\<close>. The paths of the
  fields of a struct at depth four share the array of the path of the struct, so all of
  them end up as the path of its last field: no flag there has the property when the
  struct has two.\<close>

definition ownPath :: "'f FlagSet \<Rightarrow> nat \<Rightarrow> bool" where
  "ownPath s i = (\<forall>j < length (flags s). j \<noteq> i \<longrightarrow>
                    f_fieldIndex (flags s ! j) \<noteq> f_fieldIndex (flags s ! i))"

text \<open>The value the second loop leaves in the field of the flag at position \<open>i\<close>:
  \<open>sourceWrite\<close> is the effect of \<open>setFlag\<close> with the environment or default value.\<close>

definition sourceWrite :: "'f Host \<Rightarrow> 'f FlagSet \<Rightarrow> nat \<Rightarrow> string \<Rightarrow> 'f fval" where
  "sourceWrite h s i v =
     (let f = flags s ! i; old = fieldValue (flagsRaw s) (f_fieldIndex f) in
      if canSet (flagsRaw s) (f_fieldIndex f)
      then (case setValue h (f_valueType f) v old of Inr x \<Rightarrow> x | Inl e \<Rightarrow> old)
      else old)"

definition unsetResult :: "('f::zero) FlagSet \<Rightarrow> nat \<Rightarrow> nat list \<Rightarrow> 'f fval" where
  "unsetResult s i as =
     (let f = flags s ! i; old = fieldValue (flagsRaw s) (f_fieldIndex f) in
      if (\<exists>a \<in> set as. a_err (args s ! a) \<noteq> None) \<and> canSet (flagsRaw s) (f_fieldIndex f)
      then (case zeroValue (f_valueType f) of Inr z \<Rightarrow> z | Inl e \<Rightarrow> old)
      else old)"

definition resolvedField :: "('f::zero) Host \<Rightarrow> 'f FlagSet \<Rightarrow> nat \<Rightarrow> 'f fval" where
  "resolvedField h s i =
     (let f = flags s ! i in
      if f_valueBy f = ''arg'' then unsetResult s i (f_args f)
      else (case LookupEnv h (f_env f) of
              Some ev \<Rightarrow> sourceWrite h s i ev
            | None \<Rightarrow> if f_valueDefault f \<noteq> [] then sourceWrite h s i (f_valueDefault f)
                      else fieldValue (flagsRaw s) (f_fieldIndex f)))"

text \<open>The strings that the first loop hands to \<open>setFlag\<close> for an argument of a flag: the
  trimmed non-empty pieces of the value for a list type with a delimiter, else the value.\<close>

definition argPieces :: "Flag \<Rightarrow> Arg \<Rightarrow> string list" where
  "argPieces f arg =
     (if f_delimiter f \<noteq> [] \<and> HasPrefix (f_valueType f) ''[]''
      then filter (\<lambda>v. v \<noteq> []) (map TrimSpace (Split (a_value arg) (f_delimiter f)))
      else [a_value arg])"

text \<open>The value of a field after the writes of the strings \<open>vs\<close> in turn, a failing write
  leaving the field as it is; and whether every write succeeds.\<close>

definition writeAll :: "'f Host \<Rightarrow> string \<Rightarrow> 'f fval \<Rightarrow> string list \<Rightarrow> 'f fval" where
  "writeAll h ty cur vs =
     foldl (\<lambda>cur v. case setValue h ty v cur of Inr x \<Rightarrow> x | Inl e \<Rightarrow> cur) cur vs"

fun writesOk :: "'f Host \<Rightarrow> string \<Rightarrow> 'f fval \<Rightarrow> string list \<Rightarrow> bool" where
  "writesOk h ty cur [] = True"
| "writesOk h ty cur (v # vs) =
     (case setValue h ty v cur of Inr x \<Rightarrow> writesOk h ty x vs | Inl e \<Rightarrow> False)"

text \<open>The start of the body of the first loop, up to the check of the error: the flag is
  marked, a boolean flag without value gets the value true, an empty value gets its error.\<close>

definition prepArg :: "nat \<Rightarrow> 'f FlagSet \<Rightarrow> nat \<Rightarrow> 'f FlagSet" where
  "prepArg i s0 a =
     (let s1 = setValueBy i ''arg'' s0;
          ty = f_valueType (flags s1 ! i);
          s2 = (if isBoolType ty \<and> a_value (args s1 ! a) = [] \<and> \<not> a_unset (args s1 ! a)
                then s1\<lparr>args := (args s1)[a := (args s1 ! a)\<lparr>a_value := ''true''\<rparr>]\<rparr>
                else s1);
          arg = args s2 ! a
      in if a_value arg = [] then
           (if (isBoolType ty \<and> a_unset arg) \<or> (isStringType ty \<and> \<not> a_unset arg)
            then setArgErr a (needsValue arg) s2
            else if \<not> isBoolType ty \<and> \<not> isStringType ty
            then setArgErr a (needsValue arg) s2
            else s2)
         else s2)"


text \<open>\<open>struct { n int `long:"n"` }\<close>: the field is unexported and cannot be set. It holds
  7, and the argument is \<open>--n=5\<close>.\<close>

definition unexportedOptions :: "int Options" where
  "unexportedOptions =
     \<lparr>Flags = Some \<lparr>isStructPtr = True,
                     structType = structOf [mkField ''n'' [(''long'', ''n'')] (basicType ''int'')],
                     fieldValue = (\<lambda>_. VInt 7), canSet = (\<lambda>_. False)\<rparr>,
      Args = Some [''--n=5'']\<rparr>"

text \<open>\<open>struct { L []int `long:"l" delimiter:","` }\<close> holding the slice of 5, with the
  argument \<open>--l=1,x\<close>.\<close>

definition listOptions :: "int Options" where
  "listOptions =
     exOptions (structOf [mkField ''L'' [(''long'', ''l''), (''delimiter'', '','')] (basicType ''[]int'')])
       (VInts [5]) [''--l=1,x'']"




section \<open>Construction: duplicate names\<close>

text \<open>
  C7. Two flags of the same parent scope that share a short name must make the
  construction fail. The fields A and C below are both at the top level and both have
  the short name x, with the field B of the command Cmd (short name x as well) declared
  between them: \<open>checkFlags\<close> keeps one entry per name, B overwrites the entry of A, and C
  is compared with B only. No error is reported and \<open>New\<close> returns a flag set.
\<close>

theorem checkFlags_misses_duplicate_short:
  "map (\<lambda>f. (f_name f, f_short f, f_parentIndex f)) (fieldFlags exHost (fieldsOf dupFields))
     = [(''A'', ''x'', []), (''Cmd'', [], []), (''B'', ''x'', [1]), (''C'', ''x'', [])]
   \<and> checkFlags (fieldFlags exHost (fieldsOf dupFields)) = []
   \<and> \<not> isl (New exHost (exOptions dupFields (VBool False) []))"
  by code_simp

section \<open>Command segmentation: a nested command and its parent\<close>

text \<open>
  C8. A nested command that is located must be located after the occurrence of its own
  parent command. \<open>locateCommand\<close> accepts a nested command as soon as any command was
  found before the token. With the commands foo, bar (nested in foo) and baz, the tokens
  baz bar foo locate bar at 1, before its parent foo at 2; and with the commands x,
  b (nested in x) and x (nested in b), the tokens x x locate the inner x at 1 although its
  parent b is absent. Each entry is (name, parent command, position, from, to).
\<close>

theorem nested_command_located_without_parent:
  "commandView (New exHost (exOptions nestedFields (VBool False) [''baz'', ''bar'', ''foo'']))
     = [(''foo'', -1, 2, 2, 1), (''bar'', 0, 1, 1, 0), (''baz'', -1, 0, 0, 3)]
   \<and> commandView (New exHost (exOptions sameNameFields (VBool False) [''x'', ''x'']))
     = [(''x'', -1, 0, 0, 1), (''b'', 0, -1, -1, -1), (''x'', 1, 1, 1, 2)]"
  by code_simp

section \<open>Frame lemmas\<close>

lemma foldl_invariant:
  assumes "I s" and "\<And>s x. x \<in> set xs \<Longrightarrow> I s \<Longrightarrow> I (f s x)"
  shows "I (foldl f s xs)"
  using assms by (induction xs arbitrary: s) auto

lemma foldl_preserve:
  assumes "\<And>s x. x \<in> set xs \<Longrightarrow> g (f s x) = g s"
  shows "g (foldl f s xs) = g s"
  by (rule foldl_invariant [where I = "\<lambda>t. g t = g s"]) (auto simp: assms)

lemma map_update_same: "g y = g (xs ! a) \<Longrightarrow> map g (xs[a := y]) = map g xs"
  by (cases "a < length xs") (simp_all add: map_update list_update_same_conv list_update_beyond)

lemma writeField_simps [simp]:
  "flags (writeField ix x s) = flags s"
  "args (writeField ix x s) = args s"
  "commands (writeField ix x s) = commands s"
  "argsRaw (writeField ix x s) = argsRaw s"
  "canSet (flagsRaw (writeField ix x s)) = canSet (flagsRaw s)"
  "fieldValue (flagsRaw (writeField ix x s)) = (fieldValue (flagsRaw s))(ix := x)"
  by (simp_all add: writeField_def)

lemma setFlag_result:
  "(\<exists>e. setFlag h i v s = (Some e, s))
   \<or> (\<exists>flag x. lookupFlagByID s i = Some flag \<and> canSet (flagsRaw s) (f_fieldIndex flag)
        \<and> setValue h (f_valueType flag) v (fieldValue (flagsRaw s) (f_fieldIndex flag)) = Inr x
        \<and> setFlag h i v s = (None, writeField (f_fieldIndex flag) x s))"
  by (simp add: setFlag_def split: option.splits sum.splits)

lemma setFlag_cases:
  obtains e where "setFlag h i v s = (Some e, s)"
  | flag x where "lookupFlagByID s i = Some flag" "canSet (flagsRaw s) (f_fieldIndex flag)"
      "setValue h (f_valueType flag) v (fieldValue (flagsRaw s) (f_fieldIndex flag)) = Inr x"
      "setFlag h i v s = (None, writeField (f_fieldIndex flag) x s)"
  using setFlag_result [of h i v s] by blast

lemma unsetFlag_result:
  "(\<exists>e. unsetFlag i s = (Some e, s))
   \<or> (\<exists>flag x. lookupFlagByID s i = Some flag \<and> canSet (flagsRaw s) (f_fieldIndex flag)
        \<and> zeroValue (f_valueType flag) = Inr x
        \<and> unsetFlag i s = (None, writeField (f_fieldIndex flag) x s))"
  by (simp add: unsetFlag_def split: option.splits sum.splits)

lemma unsetFlag_cases:
  obtains e where "unsetFlag i s = (Some e, s)"
  | flag x where "lookupFlagByID s i = Some flag" "canSet (flagsRaw s) (f_fieldIndex flag)"
      "zeroValue (f_valueType flag) = Inr x"
      "unsetFlag i s = (None, writeField (f_fieldIndex flag) x s)"
  using unsetFlag_result [of i s] by blast

lemma setFlag_frame [simp]:
  "flags (snd (setFlag h i v s)) = flags s"
  "args (snd (setFlag h i v s)) = args s"
  "commands (snd (setFlag h i v s)) = commands s"
  "canSet (flagsRaw (snd (setFlag h i v s))) = canSet (flagsRaw s)"
  by (cases rule: setFlag_cases [of h i v s]; simp)+

lemma unsetFlag_frame [simp]:
  "flags (snd (unsetFlag i s)) = flags s"
  "args (snd (unsetFlag i s)) = args s"
  "commands (snd (unsetFlag i s)) = commands s"
  "canSet (flagsRaw (snd (unsetFlag i s))) = canSet (flagsRaw s)"
  by (cases rule: unsetFlag_cases [of i s]; simp)+

lemma setFlagErr_simps [simp]:
  "flags (setFlagErr i e s) = (flags s)[i := (flags s ! i)\<lparr>f_err := Some e\<rparr>]"
  "args (setFlagErr i e s) = args s"
  "flagsRaw (setFlagErr i e s) = flagsRaw s"
  "commands (setFlagErr i e s) = commands s"
  by (simp_all add: setFlagErr_def)

lemma setArgErr_simps [simp]:
  "flags (setArgErr a e s) = flags s"
  "args (setArgErr a e s) = (args s)[a := (args s ! a)\<lparr>a_err := Some e\<rparr>]"
  "flagsRaw (setArgErr a e s) = flagsRaw s"
  "commands (setArgErr a e s) = commands s"
  by (simp_all add: setArgErr_def)

lemma setValueBy_simps [simp]:
  "flags (setValueBy i b s) = (flags s)[i := (flags s ! i)\<lparr>f_valueBy := b\<rparr>]"
  "args (setValueBy i b s) = args s"
  "flagsRaw (setValueBy i b s) = flagsRaw s"
  "commands (setValueBy i b s) = commands s"
  by (simp_all add: setValueBy_def)

lemma flagDecl_simps [simp]:
  "f_id (flagDecl f) = f_id f" "f_name (flagDecl f) = f_name f" "f_short (flagDecl f) = f_short f"
  "f_long (flagDecl f) = f_long f" "f_command (flagDecl f) = f_command f"
  "f_required (flagDecl f) = f_required f" "f_env (flagDecl f) = f_env f"
  "f_delimiter (flagDecl f) = f_delimiter f" "f_valueDefault (flagDecl f) = f_valueDefault f"
  "f_valueType (flagDecl f) = f_valueType f" "f_kind (flagDecl f) = f_kind f"
  "f_fieldIndex (flagDecl f) = f_fieldIndex f" "f_parentIndex (flagDecl f) = f_parentIndex f"
  "f_parentID (flagDecl f) = f_parentID f" "f_commandID (flagDecl f) = f_commandID f"
  "f_args (flagDecl f) = f_args f"
  "flagDecl (f\<lparr>f_err := e\<rparr>) = flagDecl f" "flagDecl (f\<lparr>f_valueBy := b\<rparr>) = flagDecl f"
  by (simp_all add: flagDecl_def)




lemma decl_nth:
  "map flagDecl xs = map flagDecl ys \<Longrightarrow> i < length xs \<Longrightarrow> flagDecl (xs ! i) = flagDecl (ys ! i)"
  by (metis length_map nth_map)

lemma decl_length: "map flagDecl xs = map flagDecl ys \<Longrightarrow> length xs = length ys"
  by (metis length_map)

section \<open>The third loop: required flags\<close>

lemma requireFlag_frame [simp]:
  "args (requireFlag s i) = args s"
  "flagsRaw (requireFlag s i) = flagsRaw s"
  "commands (requireFlag s i) = commands s"
  "length (flags (requireFlag s i)) = length (flags s)"
  "map flagDecl (flags (requireFlag s i)) = map flagDecl (flags s)"
  by (simp_all add: requireFlag_def Let_def map_update_same split: option.splits)


lemma requireFlags_frame:
  "args (foldl requireFlag s js) = args s"
  "flagsRaw (foldl requireFlag s js) = flagsRaw s"
  "commands (foldl requireFlag s js) = commands s"
  "length (flags (foldl requireFlag s js)) = length (flags s)"
  "map flagDecl (flags (foldl requireFlag s js)) = map flagDecl (flags s)"
  by (rule foldl_preserve; simp)+


lemma lookupFlagByIndex_Nil [simp]: "lookupFlagByIndex s [] = None"
  by (simp add: lookupFlagByIndex_def)





lemma checkRequired_frame [simp]:
  "args (checkRequired s) = args s"
  "flagsRaw (checkRequired s) = flagsRaw s"
  "commands (checkRequired s) = commands s"
  "length (flags (checkRequired s)) = length (flags s)"
  "map flagDecl (flags (checkRequired s)) = map flagDecl (flags s)"
  by (simp_all add: checkRequired_def requireFlags_frame)

lemma New_Inr:
  "segment h options = Inr p \<Longrightarrow> New h options = Inr s
   \<Longrightarrow> s = checkRequired (resolveValues h (applyValues h p))"
  by (simp add: New_def)



section \<open>The flags that structToFlags builds\<close>

lemma checkShort_result: "ck_result (checkShort v st) = [] \<Longrightarrow> ck_result st = []"
  by (simp add: checkShort_def split: option.splits if_splits)

lemma checkLong_result: "ck_result (checkLong v st) = [] \<Longrightarrow> ck_result st = []"
  by (simp add: checkLong_def split: option.splits if_splits)

lemma checkCommand_result: "ck_result (checkCommand v st) = [] \<Longrightarrow> ck_result st = []"
  by (simp add: checkCommand_def split: option.splits if_splits)

lemma checkType_result:
  "ck_result (checkType v st) = [] \<Longrightarrow> ck_result st = [] \<and> f_valueType v \<in> set supportedFlagTypes"
  by (simp add: checkType_def split: if_splits)

lemma checkFlag_result:
  "ck_result (checkFlag st v) = []
   \<Longrightarrow> ck_result st = [] \<and> f_valueType v \<in> set supportedFlagTypes"
  unfolding checkFlag_def
  by (metis checkType_result checkCommand_result checkLong_result checkShort_result)

lemma checkFlags_fold_result:
  "ck_result (foldl checkFlag st fl) = []
   \<Longrightarrow> ck_result st = [] \<and> (\<forall>v \<in> set fl. f_valueType v \<in> set supportedFlagTypes)"
proof (induction fl arbitrary: st)
  case Nil
  then show ?case by simp
next
  case (Cons v fl)
  from Cons.prems have "ck_result (foldl checkFlag (checkFlag st v) fl) = []" by simp
  from Cons.IH [OF this] checkFlag_result [of st v] show ?case by auto
qed

lemma checkFlags_types:
  "checkFlags fl = [] \<Longrightarrow> v \<in> set fl \<Longrightarrow> f_valueType v \<in> set supportedFlagTypes"
  using checkFlags_fold_result unfolding checkFlags_def by blast

lemma setParentID_preserve:
  assumes "\<And>v x. g (v\<lparr>f_parentID := x\<rparr>) = g v"
  shows "g (setParentID r v) = g v"
proof (cases "f_parentIndex v = []")
  case True
  then show ?thesis by (simp add: setParentID_def)
next
  case False
  have "g (foldl (\<lambda>v vv. if f_parentIndex v = f_fieldIndex vv then v\<lparr>f_parentID := f_id vv\<rparr> else v) v r) = g v"
    by (rule foldl_preserve) (simp add: assms)
  then show ?thesis using False by (simp add: setParentID_def)
qed

lemma setParentID_fields [simp]:
  "f_id (setParentID r v) = f_id v" "f_fieldIndex (setParentID r v) = f_fieldIndex v"
  "f_valueBy (setParentID r v) = f_valueBy v" "f_err (setParentID r v) = f_err v"
  "f_args (setParentID r v) = f_args v" "f_valueType (setParentID r v) = f_valueType v"
  "f_kind (setParentID r v) = f_kind v"
  by (rule setParentID_preserve, simp)+

lemma structFieldToFlag_fields [simp]:
  "f_valueBy (structFieldToFlag h sf) = []" "f_err (structFieldToFlag h sf) = None"
  "f_args (structFieldToFlag h sf) = []"
  by (simp_all add: structFieldToFlag_def Let_def)

lemma HasPrefix_self [simp]: "HasPrefix p p"
  by (simp add: HasPrefix_def)

lemma structFieldToFlag_kind:
  assumes "f_kind (structFieldToFlag h sf) = ''arg''"
  shows "f_valueType (structFieldToFlag h sf) \<noteq> ''struct''"
proof
  assume v: "f_valueType (structFieldToFlag h sf) = ''struct''"
  have "\<not> HasPrefix (sf_type sf) ''struct''"
    using assms by (auto simp: structFieldToFlag_def Let_def split: if_splits)
  moreover from this have "f_valueType (structFieldToFlag h sf) = sf_type sf"
    by (simp add: structFieldToFlag_def Let_def)
  ultimately show False using v by (metis HasPrefix_self)
qed

lemma fieldFlags_ids:
  "distinct (map f_id (fieldFlags h fs))"
proof -
  let ?g = "\<lambda>(k, field). (structFieldToFlag h field)
                \<lparr> f_id := int k, f_fieldIndex := sf_index field,
                  f_parentIndex := sf_parentIndex field \<rparr>"
  have "map f_id (map ?g (enumerate 0 fs)) = map int (map fst (enumerate 0 fs))"
    by (simp add: case_prod_beta comp_def del: map_fst_enumerate)
  then have "distinct (map f_id (map ?g (enumerate 0 fs)))"
    by (simp add: distinct_map inj_on_def)
  then show ?thesis unfolding fieldFlags_def by (rule distinct_map_filter)
qed

lemma fieldFlags_id_nonneg: "v \<in> set (fieldFlags h fs) \<Longrightarrow> 0 \<le> f_id v"
  by (auto simp: fieldFlags_def)

lemma fieldFlags_index:
  assumes "distinct (map sf_index fs)"
  shows "distinct (map f_fieldIndex (fieldFlags h fs))"
proof -
  let ?g = "\<lambda>(k, field). (structFieldToFlag h field)
                \<lparr> f_id := int k, f_fieldIndex := sf_index field,
                  f_parentIndex := sf_parentIndex field \<rparr>"
  have "map f_fieldIndex (map ?g (enumerate 0 fs)) = map sf_index (map snd (enumerate 0 fs))"
    by (simp add: case_prod_beta comp_def del: map_snd_enumerate)
  then have "distinct (map f_fieldIndex (map ?g (enumerate 0 fs)))"
    using assms by simp
  then show ?thesis unfolding fieldFlags_def by (rule distinct_map_filter)
qed

lemma fieldFlags_fresh:
  assumes "v \<in> set (fieldFlags h fs)"
  shows "f_valueBy v = []" "f_err v = None" "f_args v = []"
    "f_kind v = ''arg'' \<Longrightarrow> f_valueType v \<noteq> ''struct''"
proof -
  from assms obtain k field where
    v: "v = (structFieldToFlag h field)\<lparr> f_id := k, f_fieldIndex := sf_index field,
                  f_parentIndex := sf_parentIndex field \<rparr>"
    by (auto simp: fieldFlags_def)
  show "f_valueBy v = []" "f_err v = None" "f_args v = []" by (simp_all add: v)
  show "f_kind v = ''arg'' \<Longrightarrow> f_valueType v \<noteq> ''struct''"
    using structFieldToFlag_kind [of h field] by (simp add: v)
qed

text \<open>What \<open>New\<close> relies on when \<open>structToFlags\<close> returns flags: the ids are distinct and
  not negative, the flags are as \<open>structFieldToFlag\<close> left them, and every type is a
  supported one.\<close>

lemma structToFlags_Inr:
  assumes "structToFlags h ty = Inr fl"
  shows "distinct (map f_id fl)" "\<forall>v \<in> set fl. 0 \<le> f_id v"
    "\<forall>v \<in> set fl. f_valueBy v = [] \<and> f_err v = None \<and> f_args v = []"
    "\<forall>v \<in> set fl. f_valueType v \<in> set supportedFlagTypes"
    "\<forall>v \<in> set fl. f_kind v = ''arg'' \<longrightarrow> f_valueType v \<noteq> ''struct''"
proof -
  from assms obtain fs where "structFieldsOf h ty = Some fs"
    by (cases "structFieldsOf h ty") (simp_all add: structToFlags_def)
  let ?r = "fieldFlags h fs"
  from assms \<open>structFieldsOf h ty = Some fs\<close>
  have fl: "fl = map (setParentID ?r) ?r" and ck: "checkFlags ?r = []"
    by (auto simp: structToFlags_def Let_def split: if_splits)
  have m: "map f_id fl = map f_id ?r" "map f_fieldIndex fl = map f_fieldIndex ?r"
    by (simp_all add: fl)
  show "distinct (map f_id fl)" by (simp add: m fieldFlags_ids)
  show "\<forall>v \<in> set fl. 0 \<le> f_id v" by (auto simp: fl fieldFlags_id_nonneg)
  show "\<forall>v \<in> set fl. f_valueBy v = [] \<and> f_err v = None \<and> f_args v = []"
    by (auto simp: fl fieldFlags_fresh)
  show "\<forall>v \<in> set fl. f_valueType v \<in> set supportedFlagTypes"
    using ck by (auto simp: fl checkFlags_types)
  show "\<forall>v \<in> set fl. f_kind v = ''arg'' \<longrightarrow> f_valueType v \<noteq> ''struct''"
    by (auto simp: fl fieldFlags_fresh)
qed

section \<open>What the segmentation leaves of the flags\<close>

lemma flagStatic_simps [simp]:
  "f_id (flagStatic f) = f_id f" "f_valueBy (flagStatic f) = f_valueBy f"
  "f_err (flagStatic f) = f_err f" "f_valueType (flagStatic f) = f_valueType f"
  "f_kind (flagStatic f) = f_kind f" "f_fieldIndex (flagStatic f) = f_fieldIndex f"
  "flagStatic (f\<lparr>f_commandID := c\<rparr>) = flagStatic f"
  "flagStatic (f\<lparr>f_args := as\<rparr>) = flagStatic f"
  "flagStatic (f\<lparr>f_updatedBy := u\<rparr>) = flagStatic f"
  by (simp_all add: flagStatic_def)

lemma setCommandID_static [simp]:
  "map flagStatic (setCommandID cmd fs) = map flagStatic fs"
  "map f_args (setCommandID cmd fs) = map f_args fs"
  by (induction fs) auto

lemma parseCommands_frame [simp]:
  "map flagStatic (flags (parseCommands s)) = map flagStatic (flags s)"
  "map f_args (flags (parseCommands s)) = map f_args (flags s)"
  "flagsRaw (parseCommands s) = flagsRaw s"
  "args (parseCommands s) = args s"
  "argsRaw (parseCommands s) = argsRaw s"
proof -
  have "\<And>cs fs. map flagStatic (foldl (\<lambda>fs cmd. setCommandID cmd fs) fs cs) = map flagStatic fs"
    by (rule foldl_preserve) simp
  moreover have "\<And>cs fs. map f_args (foldl (\<lambda>fs cmd. setCommandID cmd fs) fs cs) = map f_args fs"
    by (rule foldl_preserve) simp
  ultimately show "map flagStatic (flags (parseCommands s)) = map flagStatic (flags s)"
    "map f_args (flags (parseCommands s)) = map f_args (flags s)"
    by (simp_all add: parseCommands_def Let_def)
  show "flagsRaw (parseCommands s) = flagsRaw s" "args (parseCommands s) = args s"
    "argsRaw (parseCommands s) = argsRaw s"
    by (simp_all add: parseCommands_def Let_def)
qed

lemma bindNested_frame [simp]:
  "map flagStatic (flags (bindNested i s a)) = map flagStatic (flags s)"
  "flagsRaw (bindNested i s a) = flagsRaw s"
  "length (args (bindNested i s a)) = length (args s)"
  "length (flags (bindNested i s a)) = length (flags s)"
  by (simp_all add: bindNested_def Let_def map_update_same)

lemma bindTop_frame [simp]:
  "map flagStatic (flags (bindTop i s a)) = map flagStatic (flags s)"
  "flagsRaw (bindTop i s a) = flagsRaw s"
  "length (args (bindTop i s a)) = length (args s)"
  "length (flags (bindTop i s a)) = length (flags s)"
  by (simp_all add: bindTop_def Let_def map_update_same)

lemma argsInRange_update:
  assumes "argsInRange s" "\<forall>a \<in> set new. a < length (args s)"
    "length as' = length (args s)"
  shows "argsInRange (s\<lparr>flags := (flags s)[i := (flags s ! i)\<lparr>f_updatedBy := u, f_commandID := c,
            f_args := f_args (flags s ! i) @ new\<rparr>], args := as'\<rparr>)"
proof (cases "i < length (flags s)")
  case True
  have "\<And>f. f \<in> set ((flags s)[i := (flags s ! i)\<lparr>f_updatedBy := u, f_commandID := c,
            f_args := f_args (flags s ! i) @ new\<rparr>]) \<Longrightarrow> \<forall>a \<in> set (f_args f). a < length (args s)"
  proof -
    fix f assume "f \<in> set ((flags s)[i := (flags s ! i)\<lparr>f_updatedBy := u, f_commandID := c,
            f_args := f_args (flags s ! i) @ new\<rparr>])"
    then have "f = (flags s ! i)\<lparr>f_updatedBy := u, f_commandID := c,
            f_args := f_args (flags s ! i) @ new\<rparr> \<or> f \<in> set (flags s)"
      by (metis insert_iff set_update_subset_insert subsetD)
    then show "\<forall>a \<in> set (f_args f). a < length (args s)"
      using assms(1,2) nth_mem [OF True] by (auto simp: argsInRange_def)
  qed
  then show ?thesis using assms(3) by (simp add: argsInRange_def)
next
  case False
  then show ?thesis using assms(1,3) by (simp add: argsInRange_def list_update_beyond)
qed

lemma bindNested_inRange:
  "argsInRange s \<Longrightarrow> a < length (args s) \<Longrightarrow> argsInRange (bindNested i s a)"
  using argsInRange_update [where s = s and new = "[a]" and i = i]
  by (simp add: bindNested_def Let_def)

lemma bindTop_inRange:
  "argsInRange s \<Longrightarrow> a < length (args s) \<Longrightarrow> argsInRange (bindTop i s a)"
  using argsInRange_update [where s = s and new = "[a]" and i = i
                                 and c = "f_commandID (flags s ! i)"]
  by (simp add: bindTop_def Let_def)

lemma bindFlag_inRange:
  assumes "argsInRange s"
  shows "argsInRange (bindFlag s i) \<and> length (args (bindFlag s i)) = length (args s)"
proof -
  have nested: "\<And>as. \<forall>a \<in> set as. a < length (args s)
      \<Longrightarrow> argsInRange (foldl (bindNested i) s as)
          \<and> length (args (foldl (bindNested i) s as)) = length (args s)"
    by (rule foldl_invariant [where I = "\<lambda>t. argsInRange t \<and> length (args t) = length (args s)"])
       (auto simp: assms bindNested_inRange)
  have top: "argsInRange (foldl (bindTop i) s [0 ..< length (args s)])
          \<and> length (args (foldl (bindTop i) s [0 ..< length (args s)])) = length (args s)"
    by (rule foldl_invariant [where I = "\<lambda>t. argsInRange t \<and> length (args t) = length (args s)"])
       (auto simp: assms bindTop_inRange)
  have cmd: "argsInRange (s\<lparr>flags := (flags s)[i := (flags s ! i)
                 \<lparr>f_args := f_args (flags s ! i)
                    @ filter (\<lambda>a. a_commandID (args s ! a) = k) [0 ..< length (args s)]\<rparr>]\<rparr>)" for k
    using argsInRange_update [where s = s and i = i and as' = "args s"
        and new = "filter (\<lambda>a. a_commandID (args s ! a) = k) [0 ..< length (args s)]"
        and u = "f_updatedBy (flags s ! i)" and c = "f_commandID (flags s ! i)", OF assms]
    by simp
  show ?thesis
  proof (cases "f_kind (flags s ! i) = ''command''")
    case True
    then show ?thesis using cmd assms by (simp add: bindFlag_def Let_def split: option.splits)
  next
    case False
    note notcmd = this
    show ?thesis
    proof (cases "lookupFlagByIndex s (f_parentIndex (flags s ! i))")
      case None
      then show ?thesis using notcmd top assms by (simp add: bindFlag_def Let_def)
    next
      case (Some pf)
      then have "pf \<in> set (flags s)"
        by (auto simp: lookupFlagByIndex_def find_Some_iff split: if_splits)
      then have "\<forall>a \<in> set (f_args pf). a < length (args s)"
        using assms by (simp add: argsInRange_def)
      from nested [OF this] show ?thesis
        using notcmd top assms Some by (simp add: bindFlag_def Let_def)
    qed
  qed
qed

lemma bindFlag_frame [simp]:
  "map flagStatic (flags (bindFlag s i)) = map flagStatic (flags s)"
  "flagsRaw (bindFlag s i) = flagsRaw s"
proof -
  have n: "\<And>as. map flagStatic (flags (foldl (bindNested i) s as)) = map flagStatic (flags s)"
    "\<And>as. flagsRaw (foldl (bindNested i) s as) = flagsRaw s"
    by (rule foldl_preserve, simp)+
  have t: "\<And>as. map flagStatic (flags (foldl (bindTop i) s as)) = map flagStatic (flags s)"
    "\<And>as. flagsRaw (foldl (bindTop i) s as) = flagsRaw s"
    by (rule foldl_preserve, simp)+
  show "map flagStatic (flags (bindFlag s i)) = map flagStatic (flags s)"
    by (simp add: bindFlag_def Let_def n t map_update_same split: option.splits)
  show "flagsRaw (bindFlag s i) = flagsRaw s"
    by (simp add: bindFlag_def Let_def n t split: option.splits)
qed

lemma parseArgsBody_props:
  assumes "\<forall>f \<in> set (flags s). f_args f = []"
  shows "map flagStatic (flags (parseArgsBody s)) = map flagStatic (flags s)"
    "flagsRaw (parseArgsBody s) = flagsRaw s"
    "argsInRange (parseArgsBody s)"
proof -
  let ?as = "foldl parseArg (map (newArg (commands s)) (enumerate 0 (argsRaw s)))
               [0 ..< length (map (newArg (commands s)) (enumerate 0 (argsRaw s)))]"
  let ?n = "length (flags s)"
  have a: "map flagStatic (flags (foldl bindFlag (s\<lparr>args := ?as\<rparr>) [0 ..< ?n])) = map flagStatic (flags (s\<lparr>args := ?as\<rparr>))"
    by (rule foldl_preserve) simp
  have b: "flagsRaw (foldl bindFlag (s\<lparr>args := ?as\<rparr>) [0 ..< ?n]) = flagsRaw (s\<lparr>args := ?as\<rparr>)"
    by (rule foldl_preserve) simp
  have "argsInRange (s\<lparr>args := ?as\<rparr>)" using assms by (simp add: argsInRange_def)
  then have c: "argsInRange (foldl bindFlag (s\<lparr>args := ?as\<rparr>) [0 ..< ?n])"
    by (rule foldl_invariant) (simp add: bindFlag_inRange)
  show "map flagStatic (flags (parseArgsBody s)) = map flagStatic (flags s)"
    using a by (simp add: parseArgsBody_def Let_def)
  show "flagsRaw (parseArgsBody s) = flagsRaw s"
    using b by (simp add: parseArgsBody_def Let_def)
  show "argsInRange (parseArgsBody s)"
    using c by (simp add: parseArgsBody_def Let_def argsInRange_def)
qed

text \<open>The flag set after the segmentation: the flags are those of \<open>structToFlags\<close> up to
  the command id, the arguments and the trace; the destination is untouched; every
  argument a flag points to exists.\<close>

lemma segment_Inr:
  assumes "segment h options = Inr p"
  obtains d fl where "Flags options = Some d" "structToFlags h (structType d) = Inr fl"
    "map flagStatic (flags p) = map flagStatic fl" "flagsRaw p = d" "argsInRange p"
proof -
  from assms obtain d fl where d: "Flags options = Some d"
    and fl: "structToFlags h (structType d) = Inr fl"
    and p: "p = parseArgs \<lparr> flags = fl, flagsRaw = d, args = [],
                     argsRaw = (case Args options of None \<Rightarrow> osArgs h | Some as \<Rightarrow> as),
                     argsParsed = False, commands = [], commandsParsed = False \<rparr>"
    by (auto simp: segment_def split: option.splits if_splits sum.splits)
  let ?init = "\<lparr> flags = fl, flagsRaw = d, args = [],
                     argsRaw = (case Args options of None \<Rightarrow> osArgs h | Some as \<Rightarrow> as),
                     argsParsed = False, commands = [], commandsParsed = False \<rparr>"
  have p': "p = parseArgsBody (parseCommands ?init)" by (simp add: p parseArgs_def)
  have fresh: "\<forall>v \<in> set fl. f_args v = []" using structToFlags_Inr(3) [OF fl] by simp
  have m: "map f_args (flags (parseCommands ?init)) = map f_args fl" by simp
  have e: "\<forall>f \<in> set (flags (parseCommands ?init)). f_args f = []"
  proof
    fix f assume "f \<in> set (flags (parseCommands ?init))"
    then have "f_args f \<in> set (map f_args (flags (parseCommands ?init)))" by (simp del: parseCommands_frame)
    then have "f_args f \<in> set (map f_args fl)" by (simp only: m)
    then show "f_args f = []" using fresh by auto
  qed
  have "map flagStatic (flags p) = map flagStatic fl" "flagsRaw p = d" "argsInRange p"
    using parseArgsBody_props [OF e] by (simp_all add: p')
  with d fl show ?thesis by (rule that)
qed

section \<open>The first loop: frame\<close>

lemma foldl_upt_split:
  "i < n \<Longrightarrow> foldl f s [0 ..< n] = foldl f (f (foldl f s [0 ..< i]) i) [Suc i ..< n]"
proof -
  assume "i < n"
  then have "[0 ..< n] = [0 ..< i] @ i # [Suc i ..< n]"
    by (metis le0 upt_conv_Cons upt_add_eq_append le_add_diff_inverse less_imp_le_nat)
  then show ?thesis by simp
qed

lemma argDecl_simps [simp]:
  "a_id (argDecl a) = a_id a" "a_arg (argDecl a) = a_arg a" "a_name (argDecl a) = a_name a"
  "a_dash (argDecl a) = a_dash a" "a_hasEq (argDecl a) = a_hasEq a"
  "a_unnamed (argDecl a) = a_unnamed a" "a_unset (argDecl a) = a_unset a"
  "a_kind (argDecl a) = a_kind a" "a_commandID (argDecl a) = a_commandID a"
  "argDecl (a\<lparr>a_err := e\<rparr>) = argDecl a" "argDecl (a\<lparr>a_value := v\<rparr>) = argDecl a"
  by (simp_all add: argDecl_def)

lemma argDecl_nth:
  "map argDecl xs = map argDecl ys \<Longrightarrow> a < length xs \<Longrightarrow> argDecl (xs ! a) = argDecl (ys ! a)"
  by (metis length_map nth_map)

lemma nth_update_same: "g y = g (xs ! a) \<Longrightarrow> g (xs[a := y] ! b) = g (xs ! b)"
  by (cases "a = b"; cases "a < length xs") (simp_all add: list_update_beyond)

lemma argDecl_nth_update [simp]:
  "argDecl y = argDecl (xs ! a) \<Longrightarrow> argDecl (xs[a := y] ! b) = argDecl (xs ! b)"
  by (rule nth_update_same)

lemma setFlagFromArg_frame [simp]:
  "flags (setFlagFromArg h i a v s) = flags s"
  "map argDecl (args (setFlagFromArg h i a v s)) = map argDecl (args s)"
  "length (args (setFlagFromArg h i a v s)) = length (args s)"
  "canSet (flagsRaw (setFlagFromArg h i a v s)) = canSet (flagsRaw s)"
  by (cases rule: setFlag_cases [of h "f_id (flags s ! i)" v s];
      simp add: setFlagFromArg_def map_update_same)+

lemma setPiece_frame [simp]:
  "flags (setPiece h i a s v) = flags s"
  "map argDecl (args (setPiece h i a s v)) = map argDecl (args s)"
  "length (args (setPiece h i a s v)) = length (args s)"
  "canSet (flagsRaw (setPiece h i a s v)) = canSet (flagsRaw s)"
  by (simp_all add: setPiece_def Let_def)

lemma setPieces_frame [simp]:
  "flags (foldl (setPiece h i a) s vs) = flags s"
  "map argDecl (args (foldl (setPiece h i a) s vs)) = map argDecl (args s)"
  "length (args (foldl (setPiece h i a) s vs)) = length (args s)"
  "canSet (flagsRaw (foldl (setPiece h i a) s vs)) = canSet (flagsRaw s)"
  by (rule foldl_preserve, simp)+

lemma applyArg_flags:
  "flags (applyArg h i s a) =
     (if a_kind (args s ! a) = ''arg'' then (flags s)[i := (flags s ! i)\<lparr>f_valueBy := ''arg''\<rparr>]
      else flags s)"
  by (simp add: applyArg_def Let_def)

lemma applyArg_frame [simp]:
  "map argDecl (args (applyArg h i s a)) = map argDecl (args s)"
  "length (args (applyArg h i s a)) = length (args s)"
  "canSet (flagsRaw (applyArg h i s a)) = canSet (flagsRaw s)"
  by (simp_all add: applyArg_def Let_def map_update_same)

lemma applyArg_decl [simp]:
  "map flagDecl (flags (applyArg h i s a)) = map flagDecl (flags s)"
  "length (flags (applyArg h i s a)) = length (flags s)"
  by (simp_all add: applyArg_flags map_update_same)

lemma kind_of_decl:
  "map argDecl xs = map argDecl ys \<Longrightarrow> b < length xs \<Longrightarrow> a_kind (xs ! b) = a_kind (ys ! b)"
  by (metis argDecl_nth argDecl_simps(8))

lemma applyArgs_frame [simp]:
  "map argDecl (args (foldl (applyArg h i) s as)) = map argDecl (args s)"
  "length (args (foldl (applyArg h i) s as)) = length (args s)"
  "canSet (flagsRaw (foldl (applyArg h i) s as)) = canSet (flagsRaw s)"
  "map flagDecl (flags (foldl (applyArg h i) s as)) = map flagDecl (flags s)"
  "length (flags (foldl (applyArg h i) s as)) = length (flags s)"
  by (rule foldl_preserve, simp)+

lemma applyArgs_other:
  "j \<noteq> i \<Longrightarrow> flags (foldl (applyArg h j) s as) ! i = flags s ! i"
  by (rule foldl_preserve) (simp add: applyArg_flags)

lemma applyArgs_valueBy:
  assumes "i < length (flags s)" "\<forall>a \<in> set as. a < length (args s)"
  shows "f_valueBy (flags (foldl (applyArg h i) s as) ! i) =
           (if \<exists>a \<in> set as. a_kind (args s ! a) = ''arg'' then ''arg''
            else f_valueBy (flags s ! i))"
  using assms
proof (induction as arbitrary: s)
  case Nil
  then show ?case by simp
next
  case (Cons a as)
  let ?s = "applyArg h i s a"
  have k: "\<And>b. b < length (args s) \<Longrightarrow> a_kind (args ?s ! b) = a_kind (args s ! b)"
    by (rule kind_of_decl) simp_all
  have "f_valueBy (flags (foldl (applyArg h i) ?s as) ! i) =
           (if \<exists>a \<in> set as. a_kind (args ?s ! a) = ''arg'' then ''arg''
            else f_valueBy (flags ?s ! i))"
    using Cons.prems by (intro Cons.IH) simp_all
  moreover have "(\<exists>b \<in> set as. a_kind (args ?s ! b) = ''arg'') = (\<exists>b \<in> set as. a_kind (args s ! b) = ''arg'')"
    using Cons.prems(2) k by auto
  moreover have "f_valueBy (flags ?s ! i) =
      (if a_kind (args s ! a) = ''arg'' then ''arg'' else f_valueBy (flags s ! i))"
    using Cons.prems(1) by (simp add: applyArg_flags)
  ultimately show ?case by auto
qed

lemma applyFlag_frame [simp]:
  "map argDecl (args (applyFlag h s i)) = map argDecl (args s)"
  "length (args (applyFlag h s i)) = length (args s)"
  "canSet (flagsRaw (applyFlag h s i)) = canSet (flagsRaw s)"
  "map flagDecl (flags (applyFlag h s i)) = map flagDecl (flags s)"
  "length (flags (applyFlag h s i)) = length (flags s)"
  by (simp_all add: applyFlag_def)

lemma applyFlag_other: "j \<noteq> i \<Longrightarrow> flags (applyFlag h s j) ! i = flags s ! i"
  by (simp add: applyFlag_def applyArgs_other)

lemma applyFlags_frame [simp]:
  "map argDecl (args (foldl (applyFlag h) s js)) = map argDecl (args s)"
  "length (args (foldl (applyFlag h) s js)) = length (args s)"
  "canSet (flagsRaw (foldl (applyFlag h) s js)) = canSet (flagsRaw s)"
  "map flagDecl (flags (foldl (applyFlag h) s js)) = map flagDecl (flags s)"
  "length (flags (foldl (applyFlag h) s js)) = length (flags s)"
  by (rule foldl_preserve, simp)+

lemma applyFlags_other:
  "i \<notin> set js \<Longrightarrow> flags (foldl (applyFlag h) s js) ! i = flags s ! i"
  by (rule foldl_preserve) (metis applyFlag_other)

lemma applyValues_frame [simp]:
  "map argDecl (args (applyValues h s)) = map argDecl (args s)"
  "length (args (applyValues h s)) = length (args s)"
  "canSet (flagsRaw (applyValues h s)) = canSet (flagsRaw s)"
  "map flagDecl (flags (applyValues h s)) = map flagDecl (flags s)"
  "length (flags (applyValues h s)) = length (flags s)"
  by (simp_all add: applyValues_def)

text \<open>The flags the first loop marks as set by an argument.\<close>

lemma applyValues_valueBy:
  assumes i: "i < length (flags s)" and r: "argsInRange s"
  shows "f_valueBy (flags (applyValues h s) ! i) =
           (if f_kind (flags s ! i) = ''arg''
               \<and> (\<exists>a \<in> set (f_args (flags s ! i)). a_kind (args s ! a) = ''arg'')
            then ''arg'' else f_valueBy (flags s ! i))"
proof -
  let ?A = "foldl (applyFlag h) s [0 ..< i]"
  have fA: "flags ?A ! i = flags s ! i" by (simp add: applyFlags_other)
  have rng: "\<forall>a \<in> set (f_args (flags s ! i)). a < length (args s)"
    using r nth_mem [OF i] by (simp add: argsInRange_def)
  have k: "\<And>b. b < length (args s) \<Longrightarrow> a_kind (args ?A ! b) = a_kind (args s ! b)"
    by (rule kind_of_decl) simp_all
  have "flags (applyValues h s) ! i = flags (applyFlag h ?A i) ! i"
    using i by (simp add: applyValues_def foldl_upt_split [of i] applyFlags_other)
  moreover have "f_valueBy (flags (applyFlag h ?A i) ! i) =
      (if f_kind (flags s ! i) = ''arg''
               \<and> (\<exists>a \<in> set (f_args (flags s ! i)). a_kind (args ?A ! a) = ''arg'')
            then ''arg'' else f_valueBy (flags s ! i))"
    using i rng by (simp add: applyFlag_def fA applyArgs_valueBy)
  moreover have "(\<exists>a \<in> set (f_args (flags s ! i)). a_kind (args ?A ! a) = ''arg'')
      = (\<exists>a \<in> set (f_args (flags s ! i)). a_kind (args s ! a) = ''arg'')"
    using rng k by auto
  ultimately show ?thesis by simp
qed

section \<open>The second loop: frame\<close>

lemma flagDecl_nth_update [simp]:
  "flagDecl y = flagDecl (xs ! a) \<Longrightarrow> flagDecl (xs[a := y] ! b) = flagDecl (xs ! b)"
  by (rule nth_update_same)

lemma unsetOnError_frame [simp]:
  "args (unsetOnError i s a) = args s"
  "map flagDecl (flags (unsetOnError i s a)) = map flagDecl (flags s)"
  "map f_valueBy (flags (unsetOnError i s a)) = map f_valueBy (flags s)"
  "length (flags (unsetOnError i s a)) = length (flags s)"
  "canSet (flagsRaw (unsetOnError i s a)) = canSet (flagsRaw s)"
  by (cases rule: unsetFlag_cases [of "f_id (flags s ! i)" s];
      simp add: unsetOnError_def map_update_same)+

lemma unsetOnError_other: "j \<noteq> i \<Longrightarrow> flags (unsetOnError j s a) ! i = flags s ! i"
  by (cases rule: unsetFlag_cases [of "f_id (flags s ! j)" s]; simp add: unsetOnError_def)

lemma unsetOnErrors_frame [simp]:
  "args (foldl (unsetOnError i) s as) = args s"
  "map flagDecl (flags (foldl (unsetOnError i) s as)) = map flagDecl (flags s)"
  "map f_valueBy (flags (foldl (unsetOnError i) s as)) = map f_valueBy (flags s)"
  "length (flags (foldl (unsetOnError i) s as)) = length (flags s)"
  "canSet (flagsRaw (foldl (unsetOnError i) s as)) = canSet (flagsRaw s)"
  by (rule foldl_preserve, simp)+

lemma unsetOnErrors_other:
  "j \<noteq> i \<Longrightarrow> flags (foldl (unsetOnError j) s as) ! i = flags s ! i"
  by (rule foldl_preserve) (simp add: unsetOnError_other)

lemma setFlagFromSource_result:
  "(\<exists>e. setFlagFromSource h i b v s = setFlagErr i e (setValueBy i b s))
   \<or> (\<exists>ix x. setFlagFromSource h i b v s = writeField ix x (setValueBy i b s))"
proof -
  define t where "t = setValueBy i b s"
  have u: "setFlagFromSource h i b v s =
      (case setFlag h (f_id (flags t ! i)) v t of
        (Some e, s') \<Rightarrow> setFlagErr i e s' | (None, s') \<Rightarrow> s')"
    by (simp only: setFlagFromSource_def Let_def t_def)
  show ?thesis
  proof (cases rule: setFlag_cases [of h "f_id (flags t ! i)" v t])
    case (1 e)
    then have "setFlagFromSource h i b v s = setFlagErr i e t" by (simp add: u)
    then show ?thesis unfolding t_def by blast
  next
    case (2 flag x)
    then have "setFlagFromSource h i b v s = writeField (f_fieldIndex flag) x t" by (simp add: u)
    then show ?thesis unfolding t_def by blast
  qed
qed

lemma setFlagFromSource_cases:
  obtains e where "setFlagFromSource h i b v s = setFlagErr i e (setValueBy i b s)"
  | ix x where "setFlagFromSource h i b v s = writeField ix x (setValueBy i b s)"
  using setFlagFromSource_result [of h i b v s] by blast

lemma setFlagFromSource_frame [simp]:
  "args (setFlagFromSource h i b v s) = args s"
  "map flagDecl (flags (setFlagFromSource h i b v s)) = map flagDecl (flags s)"
  "length (flags (setFlagFromSource h i b v s)) = length (flags s)"
  "canSet (flagsRaw (setFlagFromSource h i b v s)) = canSet (flagsRaw s)"
  by (cases rule: setFlagFromSource_cases [of h i b v s]; simp add: map_update_same)+

lemma setFlagFromSource_other:
  "j \<noteq> i \<Longrightarrow> flags (setFlagFromSource h j b v s) ! i = flags s ! i"
  by (cases rule: setFlagFromSource_cases [of h j b v s]; simp)

lemma setFlagFromSource_valueBy:
  "i < length (flags s) \<Longrightarrow> f_valueBy (flags (setFlagFromSource h i b v s) ! i) = b"
  by (cases rule: setFlagFromSource_cases [of h i b v s]; simp)

lemma resolveFlag_frame [simp]:
  "args (resolveFlag h s i) = args s"
  "map flagDecl (flags (resolveFlag h s i)) = map flagDecl (flags s)"
  "length (flags (resolveFlag h s i)) = length (flags s)"
  "canSet (flagsRaw (resolveFlag h s i)) = canSet (flagsRaw s)"
  by (simp_all add: resolveFlag_def Let_def split: option.splits)

lemma resolveFlag_other: "j \<noteq> i \<Longrightarrow> flags (resolveFlag h s j) ! i = flags s ! i"
  by (simp add: resolveFlag_def Let_def unsetOnErrors_other setFlagFromSource_other
           split: option.splits)

text \<open>The source the second loop records for the flag at position \<open>i\<close>.\<close>

lemma resolveFlag_valueBy:
  assumes "i < length (flags s)"
  shows "f_valueBy (flags (resolveFlag h s i) ! i) =
     (if f_valueBy (flags s ! i) = ''arg'' then ''arg''
      else if LookupEnv h (f_env (flags s ! i)) \<noteq> None then ''env''
      else if f_valueDefault (flags s ! i) \<noteq> [] then ''default''
      else f_valueBy (flags s ! i))"
proof -
  have "\<And>as. f_valueBy (flags (foldl (unsetOnError i) s as) ! i) = f_valueBy (flags s ! i)"
    using assms by (metis unsetOnErrors_frame(3,4) nth_map)
  then show ?thesis using assms
    by (auto simp: resolveFlag_def Let_def setFlagFromSource_valueBy split: option.splits)
qed

lemma resolveFlags_frame [simp]:
  "args (foldl (resolveFlag h) s js) = args s"
  "map flagDecl (flags (foldl (resolveFlag h) s js)) = map flagDecl (flags s)"
  "length (flags (foldl (resolveFlag h) s js)) = length (flags s)"
  "canSet (flagsRaw (foldl (resolveFlag h) s js)) = canSet (flagsRaw s)"
  by (rule foldl_preserve, simp)+

lemma resolveFlags_other:
  "i \<notin> set js \<Longrightarrow> flags (foldl (resolveFlag h) s js) ! i = flags s ! i"
  by (rule foldl_preserve) (metis resolveFlag_other)

lemma resolveValues_frame [simp]:
  "args (resolveValues h s) = args s"
  "map flagDecl (flags (resolveValues h s)) = map flagDecl (flags s)"
  "length (flags (resolveValues h s)) = length (flags s)"
  "canSet (flagsRaw (resolveValues h s)) = canSet (flagsRaw s)"
  by (simp_all add: resolveValues_def)

lemma resolveValues_nth:
  assumes "i < length (flags s)"
  shows "flags (resolveValues h s) ! i
           = flags (resolveFlag h (foldl (resolveFlag h) s [0 ..< i]) i) ! i"
    and "flags (foldl (resolveFlag h) s [0 ..< i]) ! i = flags s ! i"
  using assms by (simp_all add: resolveValues_def foldl_upt_split [of i] resolveFlags_other)

lemma resolveValues_valueBy:
  assumes "i < length (flags s)"
  shows "f_valueBy (flags (resolveValues h s) ! i) =
     (if f_valueBy (flags s ! i) = ''arg'' then ''arg''
      else if LookupEnv h (f_env (flags s ! i)) \<noteq> None then ''env''
      else if f_valueDefault (flags s ! i) \<noteq> [] then ''default''
      else f_valueBy (flags s ! i))"
  using assms by (simp add: resolveValues_nth resolveFlag_valueBy)

lemma requireFlag_valueBy [simp]:
  "map f_valueBy (flags (requireFlag s i)) = map f_valueBy (flags s)"
  by (simp add: requireFlag_def Let_def map_update_same split: option.splits)

lemma checkRequired_valueBy [simp]:
  "map f_valueBy (flags (checkRequired s)) = map f_valueBy (flags s)"
  unfolding checkRequired_def by (rule foldl_preserve) simp

section \<open>The stages of New\<close>

lemma static_nth:
  "map flagStatic xs = map flagStatic ys \<Longrightarrow> i < length xs \<Longrightarrow> flagStatic (xs ! i) = flagStatic (ys ! i)"
  by (metis length_map nth_map)

lemma segment_fresh:
  assumes "segment h options = Inr p" "i < length (flags p)"
  shows "f_valueBy (flags p ! i) = []" "f_err (flags p ! i) = None"
    "f_valueType (flags p ! i) \<in> set supportedFlagTypes"
    "f_kind (flags p ! i) = ''arg'' \<Longrightarrow> f_valueType (flags p ! i) \<noteq> ''struct''"
proof -
  from assms(1) obtain d fl where "Flags options = Some d"
    and fl: "structToFlags h (structType d) = Inr fl"
    and st: "map flagStatic (flags p) = map flagStatic fl"
    and "flagsRaw p = d" "argsInRange p"
    by (rule segment_Inr)
  have len: "i < length fl" using st assms(2) by (metis length_map)
  have e: "flagStatic (flags p ! i) = flagStatic (fl ! i)" using st assms(2) by (rule static_nth)
  have eqs: "f_valueBy (flags p ! i) = f_valueBy (fl ! i)" "f_err (flags p ! i) = f_err (fl ! i)"
    "f_valueType (flags p ! i) = f_valueType (fl ! i)" "f_kind (flags p ! i) = f_kind (fl ! i)"
    using e by (metis flagStatic_simps)+
  have m: "fl ! i \<in> set fl" using len by simp
  show "f_valueBy (flags p ! i) = []" "f_err (flags p ! i) = None"
    using structToFlags_Inr(3) [OF fl] m by (simp_all add: eqs)
  show "f_valueType (flags p ! i) \<in> set supportedFlagTypes"
    using structToFlags_Inr(4) [OF fl] m by (simp add: eqs)
  show "f_kind (flags p ! i) = ''arg'' \<Longrightarrow> f_valueType (flags p ! i) \<noteq> ''struct''"
    using structToFlags_Inr(5) [OF fl] m by (simp add: eqs)
qed

lemma New_frame:
  assumes seg: "segment h options = Inr p" and new: "New h options = Inr s"
  shows "length (flags s) = length (flags p)"
    "map flagDecl (flags s) = map flagDecl (flags p)"
    "args s = args (applyValues h p)"
    "map argDecl (args s) = map argDecl (args p)"
    "length (args s) = length (args p)"
    "map f_valueBy (flags s) = map f_valueBy (flags (resolveValues h (applyValues h p)))"
    "flagsRaw s = flagsRaw (resolveValues h (applyValues h p))"
    "argsInRange s"
proof -
  have s: "s = checkRequired (resolveValues h (applyValues h p))" using seg new by (rule New_Inr)
  show "length (flags s) = length (flags p)" "map flagDecl (flags s) = map flagDecl (flags p)"
    "args s = args (applyValues h p)" "map argDecl (args s) = map argDecl (args p)"
    "length (args s) = length (args p)"
    "map f_valueBy (flags s) = map f_valueBy (flags (resolveValues h (applyValues h p)))"
    "flagsRaw s = flagsRaw (resolveValues h (applyValues h p))"
    by (simp_all add: s)
  from seg have r: "argsInRange p" by (rule segment_Inr)
  have "map f_args (flags s) = map f_args (flags p)"
  proof -
    have "map f_args (map flagDecl (flags s)) = map f_args (map flagDecl (flags p))"
      by (simp add: s)
    then show ?thesis by (simp add: comp_def)
  qed
  then have "f_args ` set (flags s) = f_args ` set (flags p)"
    by (metis list.set_map)
  then show "argsInRange s" using r unfolding argsInRange_def
    by (simp add: s) (metis (no_types, lifting) image_iff)
qed

lemma New_valueBy:
  assumes seg: "segment h options = Inr p" and new: "New h options = Inr s"
    and i: "i < length (flags s)"
  shows "f_valueBy (flags s ! i) =
     (if f_kind (flags s ! i) = ''arg''
         \<and> (\<exists>a \<in> set (f_args (flags s ! i)). a_kind (args s ! a) = ''arg'') then ''arg''
      else if LookupEnv h (f_env (flags s ! i)) \<noteq> None then ''env''
      else if f_valueDefault (flags s ! i) \<noteq> [] then ''default'' else [])"
proof -
  let ?r1 = "applyValues h p" and ?r2 = "resolveValues h (applyValues h p)"
  note fr = New_frame [OF seg new]
  have ip: "i < length (flags p)" using i by (simp add: fr)
  have fd: "flagDecl (flags s ! i) = flagDecl (flags p ! i)" using fr(2) i by (rule decl_nth)
  have fd1: "flagDecl (flags ?r1 ! i) = flagDecl (flags p ! i)"
    by (rule decl_nth) (simp_all add: ip)
  have eqs: "f_kind (flags s ! i) = f_kind (flags p ! i)"
    "f_args (flags s ! i) = f_args (flags p ! i)"
    "f_env (flags s ! i) = f_env (flags p ! i)"
    "f_valueDefault (flags s ! i) = f_valueDefault (flags p ! i)"
    using fd by (metis flagDecl_simps)+
  have eqs1: "f_env (flags ?r1 ! i) = f_env (flags p ! i)"
    "f_valueDefault (flags ?r1 ! i) = f_valueDefault (flags p ! i)"
    using fd1 by (metis flagDecl_simps)+
  from seg have rp: "argsInRange p" by (rule segment_Inr)
  then have rng: "\<forall>a \<in> set (f_args (flags p ! i)). a < length (args p)"
    using nth_mem [OF ip] by (simp add: argsInRange_def)
  have k: "\<And>a. a < length (args p) \<Longrightarrow> a_kind (args s ! a) = a_kind (args p ! a)"
    by (rule kind_of_decl) (simp_all add: fr)
  have kk: "(\<exists>a \<in> set (f_args (flags p ! i)). a_kind (args s ! a) = ''arg'')
          = (\<exists>a \<in> set (f_args (flags p ! i)). a_kind (args p ! a) = ''arg'')"
    using rng k by auto
  have "f_valueBy (flags s ! i) = f_valueBy (flags ?r2 ! i)"
    using fr(6) i by (metis length_map nth_map)
  also have "\<dots> = (if f_valueBy (flags ?r1 ! i) = ''arg'' then ''arg''
      else if LookupEnv h (f_env (flags ?r1 ! i)) \<noteq> None then ''env''
      else if f_valueDefault (flags ?r1 ! i) \<noteq> [] then ''default''
      else f_valueBy (flags ?r1 ! i))"
    using ip by (simp add: resolveValues_valueBy)
  finally show ?thesis
    using ip rp by (simp add: applyValues_valueBy eqs eqs1 kk segment_fresh [OF seg ip])
qed

section \<open>Lookups in a well-formed flag list\<close>

lemma wfFlags_decl:
  assumes "map flagDecl (flags s) = map flagDecl (flags t)"
  shows "wfFlags s = wfFlags t"
proof -
  have "map f_id (map flagDecl (flags s)) = map f_id (map flagDecl (flags t))"
    "map f_fieldIndex (map flagDecl (flags s)) = map f_fieldIndex (map flagDecl (flags t))"
    by (simp_all only: assms)
  then have "map f_id (flags s) = map f_id (flags t)"
    "map f_fieldIndex (flags s) = map f_fieldIndex (flags t)"
    by (simp_all add: comp_def)
  then show ?thesis by (simp add: wfFlags_def)
qed

lemma distinct_map_nth:
  "distinct (map g xs) \<Longrightarrow> i < length xs \<Longrightarrow> j < length xs \<Longrightarrow> g (xs ! i) = g (xs ! j) \<Longrightarrow> i = j"
  by (metis distinct_conv_nth length_map nth_map)

lemma find_distinct_nth:
  assumes "distinct (map g xs)" "i < length xs"
  shows "find (\<lambda>v. g v = g (xs ! i)) xs = Some (xs ! i)"
proof -
  have "g (xs ! j) \<noteq> g (xs ! i)" if "j < i" for j
  proof
    assume e: "g (xs ! j) = g (xs ! i)"
    have "j < length xs" using that assms(2) by simp
    from distinct_map_nth [OF assms(1) this assms(2) e] that show False by simp
  qed
  then show ?thesis using assms(2) by (auto simp: find_Some_iff)
qed

lemma wf_id_nonneg:
  assumes "wfFlags s" "i < length (flags s)"
  shows "\<not> f_id (flags s ! i) < 0"
proof -
  have "f_id (flags s ! i) \<in> set (map f_id (flags s))" using assms(2) by simp
  then have "0 \<le> f_id (flags s ! i)" using assms(1) unfolding wfFlags_def by blast
  then show ?thesis by simp
qed

lemma lookupFlagByID_nth:
  assumes "wfFlags s" "i < length (flags s)"
  shows "lookupFlagByID s (f_id (flags s ! i)) = Some (flags s ! i)"
proof -
  have "\<not> f_id (flags s ! i) < 0" using assms by (rule wf_id_nonneg)
  moreover have "find (\<lambda>v. f_id v = f_id (flags s ! i)) (flags s) = Some (flags s ! i)"
    using assms by (intro find_distinct_nth) (simp_all add: wfFlags_def)
  ultimately show ?thesis by (simp add: lookupFlagByID_def)
qed

lemma wf_index_neq:
  assumes "ownPath s i" "j < length (flags s)" "j \<noteq> i"
  shows "f_fieldIndex (flags s ! j) \<noteq> f_fieldIndex (flags s ! i)"
  using assms by (simp add: ownPath_def)

text \<open>\<open>setFlag\<close> and \<open>unsetFlag\<close> with the id of the flag at position \<open>i\<close>.\<close>

lemma setFlag_nth:
  assumes "wfFlags s" "i < length (flags s)"
  shows "setFlag h (f_id (flags s ! i)) v s =
     (if \<not> canSet (flagsRaw s) (f_fieldIndex (flags s ! i))
      then (Some (''flag '' @ f_name (flags s ! i) @ '' can'' @ [CHR 0x27] @ ''t be set''), s)
      else (case setValue h (f_valueType (flags s ! i)) v
                   (fieldValue (flagsRaw s) (f_fieldIndex (flags s ! i))) of
              Inl e \<Rightarrow> (Some e, s)
            | Inr x \<Rightarrow> (None, writeField (f_fieldIndex (flags s ! i)) x s)))"
proof -
  have "\<not> f_id (flags s ! i) < 0" using assms by (rule wf_id_nonneg)
  then show ?thesis by (simp add: setFlag_def lookupFlagByID_nth [OF assms])
qed

lemma unsetFlag_nth:
  assumes "wfFlags s" "i < length (flags s)"
  shows "unsetFlag (f_id (flags s ! i)) s =
     (if \<not> canSet (flagsRaw s) (f_fieldIndex (flags s ! i))
      then (Some (''flag '' @ f_name (flags s ! i) @ '' can'' @ [CHR 0x27] @ ''t be set''), s)
      else (case zeroValue (f_valueType (flags s ! i)) of
              Inl e \<Rightarrow> (Some e, s)
            | Inr x \<Rightarrow> (None, writeField (f_fieldIndex (flags s ! i)) x s)))"
proof -
  have "\<not> f_id (flags s ! i) < 0" using assms by (rule wf_id_nonneg)
  then show ?thesis by (simp add: unsetFlag_def lookupFlagByID_nth [OF assms])
qed

section \<open>The second loop: the destination\<close>

lemma decl_fields:
  assumes "map flagDecl xs = map flagDecl ys" "j < length xs"
  shows "f_fieldIndex (xs ! j) = f_fieldIndex (ys ! j)" "f_valueType (xs ! j) = f_valueType (ys ! j)"
    "f_args (xs ! j) = f_args (ys ! j)" "f_kind (xs ! j) = f_kind (ys ! j)"
    "f_id (xs ! j) = f_id (ys ! j)" "f_env (xs ! j) = f_env (ys ! j)"
    "f_valueDefault (xs ! j) = f_valueDefault (ys ! j)" "f_delimiter (xs ! j) = f_delimiter (ys ! j)"
    "f_name (xs ! j) = f_name (ys ! j)" "f_required (xs ! j) = f_required (ys ! j)"
  using decl_nth [OF assms] by (metis flagDecl_simps)+

lemma ownPath_decl:
  assumes d: "map flagDecl (flags s) = map flagDecl (flags t)" and i: "i < length (flags s)"
  shows "ownPath s i = ownPath t i"
proof -
  have len: "length (flags s) = length (flags t)" using d by (rule decl_length)
  have e: "f_fieldIndex (flags s ! j) = f_fieldIndex (flags t ! j)" if "j < length (flags t)" for j
    using decl_fields(1) [OF d] that len by simp
  have ei: "f_fieldIndex (flags s ! i) = f_fieldIndex (flags t ! i)"
    using decl_fields(1) [OF d i] .
  show ?thesis by (simp add: ownPath_def len ei e)
qed

lemma unsetOnError_store:
  assumes "wfFlags s" "i < length (flags s)"
  shows "fieldValue (flagsRaw (unsetOnError i s a))
           = (fieldValue (flagsRaw s))(f_fieldIndex (flags s ! i) := unsetResult s i [a])"
  by (simp add: unsetOnError_def unsetFlag_nth [OF assms] unsetResult_def Let_def
           split: sum.splits)

lemma unsetOnErrors_store:
  assumes "wfFlags s" "i < length (flags s)"
  shows "fieldValue (flagsRaw (foldl (unsetOnError i) s as))
           = (fieldValue (flagsRaw s))(f_fieldIndex (flags s ! i) := unsetResult s i as)"
  using assms
proof (induction as arbitrary: s)
  case Nil
  then show ?case by (simp add: unsetResult_def)
next
  case (Cons a as)
  let ?t = "unsetOnError i s a"
  have d: "map flagDecl (flags ?t) = map flagDecl (flags s)" by simp
  have wf: "wfFlags ?t" using Cons.prems(1) wfFlags_decl [OF d] by simp
  have i: "i < length (flags ?t)" using Cons.prems(2) by simp
  have f: "f_fieldIndex (flags ?t ! i) = f_fieldIndex (flags s ! i)"
    "f_valueType (flags ?t ! i) = f_valueType (flags s ! i)"
    using decl_fields [OF d i] by simp_all
  have st: "fieldValue (flagsRaw ?t)
           = (fieldValue (flagsRaw s))(f_fieldIndex (flags s ! i) := unsetResult s i [a])"
    using Cons.prems by (rule unsetOnError_store)
  have "fieldValue (flagsRaw (foldl (unsetOnError i) ?t as))
           = (fieldValue (flagsRaw ?t))(f_fieldIndex (flags ?t ! i) := unsetResult ?t i as)"
    using wf i by (rule Cons.IH)
  then show ?case
    by (simp add: f st) (auto simp: unsetResult_def Let_def f st split: sum.splits)
qed

lemma setFlagFromSource_store:
  assumes "wfFlags s" "i < length (flags s)"
  shows "fieldValue (flagsRaw (setFlagFromSource h i b v s))
           = (fieldValue (flagsRaw s))(f_fieldIndex (flags s ! i) := sourceWrite h s i v)"
proof -
  let ?t = "setValueBy i b s"
  have d: "map flagDecl (flags ?t) = map flagDecl (flags s)" by (simp add: map_update_same)
  have wf: "wfFlags ?t" using assms(1) wfFlags_decl [OF d] by simp
  have i: "i < length (flags ?t)" using assms(2) by simp
  have f: "f_fieldIndex (flags ?t ! i) = f_fieldIndex (flags s ! i)"
    "f_valueType (flags ?t ! i) = f_valueType (flags s ! i)"
    using decl_fields [OF d i] by simp_all
  have u: "setFlagFromSource h i b v s =
      (case setFlag h (f_id (flags ?t ! i)) v ?t of
        (Some e, s') \<Rightarrow> setFlagErr i e s' | (None, s') \<Rightarrow> s')"
    by (simp only: setFlagFromSource_def Let_def)
  show ?thesis
    unfolding u setFlag_nth [OF wf i] f
    by (simp add: sourceWrite_def Let_def split: sum.splits)
qed

lemma resolveFlag_store:
  assumes "wfFlags s" "i < length (flags s)"
  shows "fieldValue (flagsRaw (resolveFlag h s i))
           = (fieldValue (flagsRaw s))(f_fieldIndex (flags s ! i) := resolvedField h s i)"
  by (simp add: resolveFlag_def resolvedField_def Let_def unsetOnErrors_store [OF assms]
        setFlagFromSource_store [OF assms] split: option.splits)

lemma resolveFlags_store_other:
  fixes s :: "('f::zero) FlagSet"
  assumes wf: "wfFlags s" and own: "ownPath s i" and js: "i \<notin> set js"
    "\<forall>j \<in> set js. j < length (flags s)"
  shows "fieldValue (flagsRaw (foldl (resolveFlag h) s js)) (f_fieldIndex (flags s ! i))
           = fieldValue (flagsRaw s) (f_fieldIndex (flags s ! i))"
proof -
  let ?ix = "f_fieldIndex (flags s ! i)"
  let ?I = "\<lambda>t :: 'f FlagSet. map flagDecl (flags t) = map flagDecl (flags s)
              \<and> fieldValue (flagsRaw t) ?ix = fieldValue (flagsRaw s) ?ix"
  have "?I (foldl (resolveFlag h) s js)"
  proof (rule foldl_invariant [where I = ?I])
    show "?I s" by simp
  next
    fix t :: "'f FlagSet" and j assume j: "j \<in> set js" and I: "?I t"
    have d: "map flagDecl (flags t) = map flagDecl (flags s)" using I by simp
    have wft: "wfFlags t" using wf wfFlags_decl [OF d] by simp
    have len: "length (flags t) = length (flags s)" using d by (rule decl_length)
    have jl: "j < length (flags t)" using js(2) j len by simp
    have ji: "j \<noteq> i" using js(1) j by auto
    have "f_fieldIndex (flags t ! j) = f_fieldIndex (flags s ! j)"
      using decl_fields(1) [OF d jl] .
    moreover have "f_fieldIndex (flags s ! j) \<noteq> ?ix"
      using own jl ji len by (simp add: wf_index_neq)
    ultimately show "?I (resolveFlag h t j)"
      using I by (simp add: resolveFlag_store [OF wft jl])
  qed
  then show ?thesis by simp
qed

lemma resolvedField_cong:
  assumes "flags t ! i = flags s ! i" "args t = args s"
    "fieldValue (flagsRaw t) (f_fieldIndex (flags s ! i))
       = fieldValue (flagsRaw s) (f_fieldIndex (flags s ! i))"
    "canSet (flagsRaw t) = canSet (flagsRaw s)"
  shows "resolvedField h t i = resolvedField h s i"
proof -
  have a: "\<And>v. sourceWrite h t i v = sourceWrite h s i v"
    using assms by (simp add: sourceWrite_def Let_def split: sum.splits)
  have b: "\<And>as. unsetResult t i as = unsetResult s i as"
    using assms by (simp add: unsetResult_def Let_def split: sum.splits)
  show ?thesis using assms(1,3)
    by (simp add: resolvedField_def Let_def a b split: option.splits)
qed

text \<open>The field of the flag at position \<open>i\<close> after the second loop.\<close>

lemma resolveValues_store:
  assumes wf: "wfFlags s" and own: "ownPath s i" and i: "i < length (flags s)"
  shows "fieldValue (flagsRaw (resolveValues h s)) (f_fieldIndex (flags s ! i))
           = resolvedField h s i"
proof -
  let ?ix = "f_fieldIndex (flags s ! i)"
  let ?n = "length (flags s)"
  let ?A = "foldl (resolveFlag h) s [0 ..< i]"
  let ?B = "resolveFlag h ?A i"
  have dA: "map flagDecl (flags ?A) = map flagDecl (flags s)" by simp
  have wfA: "wfFlags ?A" using wf wfFlags_decl [OF dA] by simp
  have iA: "i < length (flags ?A)" using i by simp
  have fA: "flags ?A ! i = flags s ! i" by (simp add: resolveFlags_other)
  have sA: "fieldValue (flagsRaw ?A) ?ix = fieldValue (flagsRaw s) ?ix"
    using wf own i by (intro resolveFlags_store_other) auto
  have rA: "resolvedField h ?A i = resolvedField h s i"
    using fA sA by (intro resolvedField_cong) simp_all
  have sB: "fieldValue (flagsRaw ?B) ?ix = resolvedField h s i"
    by (simp add: resolveFlag_store [OF wfA iA] fA rA)
  have dB: "map flagDecl (flags ?B) = map flagDecl (flags s)" by simp
  have wfB: "wfFlags ?B" using wf wfFlags_decl [OF dB] by simp
  have iB: "i < length (flags ?B)" using i by simp
  have ownB: "ownPath ?B i" using own ownPath_decl [OF dB iB] by simp
  have ixB: "f_fieldIndex (flags ?B ! i) = ?ix" using decl_fields(1) [OF dB iB] .
  have "fieldValue (flagsRaw (foldl (resolveFlag h) ?B [Suc i ..< ?n])) (f_fieldIndex (flags ?B ! i))
           = fieldValue (flagsRaw ?B) (f_fieldIndex (flags ?B ! i))"
    using wfB ownB iB by (intro resolveFlags_store_other) auto
  then show ?thesis
    using i by (simp add: resolveValues_def foldl_upt_split [of i] ixB sB)
qed

section \<open>The first loop: the destination\<close>

lemma prepArg_frame [simp]:
  "flags (prepArg i s a) = (flags s)[i := (flags s ! i)\<lparr>f_valueBy := ''arg''\<rparr>]"
  "flagsRaw (prepArg i s a) = flagsRaw s"
  "length (args (prepArg i s a)) = length (args s)"
  "map argDecl (args (prepArg i s a)) = map argDecl (args s)"
  by (simp_all add: prepArg_def Let_def map_update_same)

lemma applyArg_prep:
  "applyArg h i s a =
     (if a_kind (args s ! a) \<noteq> ''arg'' then s
      else if a_err (args (prepArg i s a) ! a) \<noteq> None then prepArg i s a
      else if f_delimiter (flags (prepArg i s a) ! i) \<noteq> []
              \<and> HasPrefix (f_valueType (flags (setValueBy i ''arg'' s) ! i)) ''[]''
      then foldl (setPiece h i a) (prepArg i s a)
             (Split (a_value (args (prepArg i s a) ! a)) (f_delimiter (flags (prepArg i s a) ! i)))
      else setFlagFromArg h i a (a_value (args (prepArg i s a) ! a)) (prepArg i s a))"
  by (simp only: applyArg_def prepArg_def Let_def)

lemma setArgErr_nth:
  "a_err (args (setArgErr a e s) ! b)
     = (if b = a \<and> a < length (args s) then Some e else a_err (args s ! b))"
  "a_value (args (setArgErr a e s) ! b) = a_value (args s ! b)"
  "a_unset (args (setArgErr a e s) ! b) = a_unset (args s ! b)"
  by (cases "b = a"; cases "a < length (args s)"; simp add: list_update_beyond)+

text \<open>The value and the error of the argument after the start of the body.\<close>

lemma prepArg_value:
  "a_value (args (prepArg i s a) ! b) =
     (if b = a \<and> a < length (args s) \<and> isBoolType (f_valueType (flags s ! i))
         \<and> a_value (args s ! a) = [] \<and> \<not> a_unset (args s ! a)
      then ''true'' else a_value (args s ! b))"
proof -
  have t: "f_valueType ((flags s)[i := (flags s ! i)\<lparr>f_valueBy := ''arg''\<rparr>] ! i) = f_valueType (flags s ! i)"
    by (rule nth_update_same) simp
  show ?thesis
    by (cases "b = a"; cases "a < length (args s)")
       (simp_all add: prepArg_def Let_def t setArgErr_nth list_update_beyond)
qed

lemma prepArg_unset [simp]: "a_unset (args (prepArg i s a) ! b) = a_unset (args s ! b)"
proof (cases "b < length (args s)")
  case True
  then have "argDecl (args (prepArg i s a) ! b) = argDecl (args s ! b)"
    by (intro argDecl_nth) simp_all
  then show ?thesis by (metis argDecl_simps(7))
next
  case False
  then have "args (prepArg i s a) ! b = args s ! b"
    by (cases "b = a") (simp_all add: prepArg_def Let_def setArgErr_def list_update_beyond)
  then show ?thesis by simp
qed

lemma needsValue_update [simp]:
  "needsValue (x\<lparr>a_value := v\<rparr>) = needsValue x"
  by (simp add: needsValue_def)

lemma prepArg_err:
  "a_err (args (prepArg i s a) ! b) =
     (if b = a \<and> a < length (args s) \<and> a_value (args (prepArg i s a) ! a) = []
         \<and> ((isBoolType (f_valueType (flags s ! i)) \<and> a_unset (args s ! a))
            \<or> (isStringType (f_valueType (flags s ! i)) \<and> \<not> a_unset (args s ! a))
            \<or> (\<not> isBoolType (f_valueType (flags s ! i))
                \<and> \<not> isStringType (f_valueType (flags s ! i))))
      then Some (needsValue (args s ! a)) else a_err (args s ! b))"
proof -
  have t: "f_valueType ((flags s)[i := (flags s ! i)\<lparr>f_valueBy := ''arg''\<rparr>] ! i) = f_valueType (flags s ! i)"
    by (rule nth_update_same) simp
  show ?thesis
    by (cases "b = a"; cases "a < length (args s)")
       (simp_all add: prepArg_def Let_def t setArgErr_nth list_update_beyond)
qed

lemma setFlagFromArg_wf:
  assumes "wfFlags s" "i < length (flags s)" "canSet (flagsRaw s) (f_fieldIndex (flags s ! i))"
  shows "setFlagFromArg h i a v s =
     (case setValue h (f_valueType (flags s ! i)) v
             (fieldValue (flagsRaw s) (f_fieldIndex (flags s ! i))) of
        Inl e \<Rightarrow> setArgErr a e s
      | Inr x \<Rightarrow> writeField (f_fieldIndex (flags s ! i)) x s)"
  using assms(3)
  by (simp add: setFlagFromArg_def setFlag_nth [OF assms(1,2)] split: sum.splits)

lemma writeAll_simps [simp]:
  "writeAll h ty cur [] = cur"
  "writeAll h ty cur (v # vs) =
     writeAll h ty (case setValue h ty v cur of Inr x \<Rightarrow> x | Inl e \<Rightarrow> cur) vs"
  by (simp_all add: writeAll_def)

lemma writeAll_append: "writeAll h ty cur (xs @ ys) = writeAll h ty (writeAll h ty cur xs) ys"
  by (simp add: writeAll_def)

lemma writesOk_append:
  "writesOk h ty cur (xs @ ys)
     = (writesOk h ty cur xs \<and> writesOk h ty (writeAll h ty cur xs) ys)"
  by (induction xs arbitrary: cur) (auto split: sum.splits)

text \<open>The loop over the pieces of a delimited value.\<close>

lemma setPieces_store:
  fixes s :: "'f FlagSet"
  assumes wf: "wfFlags s" and i: "i < length (flags s)" and a: "a < length (args s)"
    and cs: "canSet (flagsRaw s) (f_fieldIndex (flags s ! i))"
  shows "fieldValue (flagsRaw (foldl (setPiece h i a) s vs))
           = (fieldValue (flagsRaw s))(f_fieldIndex (flags s ! i) :=
                writeAll h (f_valueType (flags s ! i))
                  (fieldValue (flagsRaw s) (f_fieldIndex (flags s ! i)))
                  (filter (\<lambda>v. v \<noteq> []) (map TrimSpace vs)))
       \<and> (a_err (args (foldl (setPiece h i a) s vs) ! a) = None
            \<longleftrightarrow> a_err (args s ! a) = None
                \<and> writesOk h (f_valueType (flags s ! i))
                     (fieldValue (flagsRaw s) (f_fieldIndex (flags s ! i)))
                     (filter (\<lambda>v. v \<noteq> []) (map TrimSpace vs)))
       \<and> (\<forall>b. a_value (args (foldl (setPiece h i a) s vs) ! b) = a_value (args s ! b))
       \<and> (\<forall>b. a_err (args s ! b) \<noteq> None
                \<longrightarrow> a_err (args (foldl (setPiece h i a) s vs) ! b) \<noteq> None)"
  using assms
proof (induction vs arbitrary: s)
  case Nil
  then show ?case by simp
next
  case (Cons v vs)
  let ?ix = "f_fieldIndex (flags s ! i)" and ?ty = "f_valueType (flags s ! i)"
  let ?t = "setPiece h i a s v"
  have ft: "flags ?t = flags s" by simp
  have wft: "wfFlags ?t" using Cons.prems(1) by (simp add: wfFlags_def)
  have it: "i < length (flags ?t)" using Cons.prems(2) by simp
  have at: "a < length (args ?t)" using Cons.prems(3) by simp
  have ct: "canSet (flagsRaw ?t) (f_fieldIndex (flags ?t ! i))" using Cons.prems(4) by simp
  note IH = Cons.IH [OF wft it at ct, unfolded ft]
  show ?case
  proof (cases "TrimSpace v = []")
    case True
    then have "?t = s" by (simp add: setPiece_def)
    with IH True show ?thesis by simp
  next
    case False
    note ne = this
    show ?thesis
    proof (cases "setValue h ?ty (TrimSpace v) (fieldValue (flagsRaw s) ?ix)")
      case (Inl e)
      then have t: "?t = setArgErr a e s"
        using ne by (simp add: setPiece_def setFlagFromArg_wf [OF Cons.prems(1,2,4)])
      show ?thesis
        using IH ne Inl Cons.prems(3)
        by (auto simp: t nth_list_update)
    next
      case (Inr x)
      then have t: "?t = writeField ?ix x s"
        using ne by (simp add: setPiece_def setFlagFromArg_wf [OF Cons.prems(1,2,4)])
      show ?thesis
        using IH ne Inr by (auto simp: t fun_eq_iff)
    qed
  qed
qed

lemma setFlagFromArg_other:
  assumes "wfFlags s" "i < length (flags s)" "ix \<noteq> f_fieldIndex (flags s ! i)"
  shows "fieldValue (flagsRaw (setFlagFromArg h i a v s)) ix = fieldValue (flagsRaw s) ix"
  using assms(3)
  by (simp add: setFlagFromArg_def setFlag_nth [OF assms(1,2)] split: sum.splits)

lemma setPieces_other:
  fixes s :: "'f FlagSet"
  assumes "wfFlags s" "i < length (flags s)" "ix \<noteq> f_fieldIndex (flags s ! i)"
  shows "fieldValue (flagsRaw (foldl (setPiece h i a) s vs)) ix = fieldValue (flagsRaw s) ix"
proof -
  let ?I = "\<lambda>t :: 'f FlagSet. flags t = flags s \<and> fieldValue (flagsRaw t) ix = fieldValue (flagsRaw s) ix"
  have "?I (foldl (setPiece h i a) s vs)"
  proof (rule foldl_invariant [where I = ?I])
    show "?I s" by simp
  next
    fix t :: "'f FlagSet" and v assume I: "?I t"
    then have "wfFlags t" "i < length (flags t)" "ix \<noteq> f_fieldIndex (flags t ! i)"
      using assms by (simp_all add: wfFlags_def)
    from setFlagFromArg_other [OF this] I show "?I (setPiece h i a t v)"
      by (simp add: setPiece_def Let_def)
  qed
  then show ?thesis by simp
qed

lemma applyArg_other:
  assumes "wfFlags s" "i < length (flags s)" "ix \<noteq> f_fieldIndex (flags s ! i)"
  shows "fieldValue (flagsRaw (applyArg h i s a)) ix = fieldValue (flagsRaw s) ix"
proof -
  let ?P = "prepArg i s a"
  have d: "map flagDecl (flags ?P) = map flagDecl (flags s)" by (simp add: map_update_same)
  have wf: "wfFlags ?P" using assms(1) wfFlags_decl [OF d] by simp
  have i: "i < length (flags ?P)" using assms(2) by simp
  have ix: "ix \<noteq> f_fieldIndex (flags ?P ! i)"
    using decl_fields(1) [OF d i] assms(3) by simp
  show ?thesis
    unfolding applyArg_prep
    using setPieces_other [OF wf i ix] setFlagFromArg_other [OF wf i ix]
    by (simp del: prepArg_frame(1))
qed

lemma applyFlag_other_store:
  fixes s :: "'f FlagSet"
  assumes "wfFlags s" "i < length (flags s)" "ix \<noteq> f_fieldIndex (flags s ! i)"
  shows "fieldValue (flagsRaw (applyFlag h s i)) ix = fieldValue (flagsRaw s) ix"
proof -
  let ?I = "\<lambda>t :: 'f FlagSet. map flagDecl (flags t) = map flagDecl (flags s)
              \<and> fieldValue (flagsRaw t) ix = fieldValue (flagsRaw s) ix"
  have "?I (foldl (applyArg h i) s as)" for as
  proof (rule foldl_invariant [where I = ?I])
    show "?I s" by simp
  next
    fix t :: "'f FlagSet" and a assume I: "?I t"
    then have d: "map flagDecl (flags t) = map flagDecl (flags s)" by simp
    have wf: "wfFlags t" using assms(1) wfFlags_decl [OF d] by simp
    have i: "i < length (flags t)" using assms(2) decl_length [OF d] by simp
    have "ix \<noteq> f_fieldIndex (flags t ! i)" using decl_fields(1) [OF d i] assms(3) by simp
    from applyArg_other [OF wf i this] I show "?I (applyArg h i t a)" by simp
  qed
  then show ?thesis by (simp add: applyFlag_def)
qed

text \<open>The first loop writes the field of the flag at position \<open>i\<close> in its step \<open>i\<close> only.\<close>

lemma applyFlags_other_store:
  fixes s :: "'f FlagSet"
  assumes wf: "wfFlags s" and own: "ownPath s i" and js: "i \<notin> set js"
    "\<forall>j \<in> set js. j < length (flags s)"
  shows "fieldValue (flagsRaw (foldl (applyFlag h) s js)) (f_fieldIndex (flags s ! i))
           = fieldValue (flagsRaw s) (f_fieldIndex (flags s ! i))"
proof -
  let ?ix = "f_fieldIndex (flags s ! i)"
  let ?I = "\<lambda>t :: 'f FlagSet. map flagDecl (flags t) = map flagDecl (flags s)
              \<and> fieldValue (flagsRaw t) ?ix = fieldValue (flagsRaw s) ?ix"
  have "?I (foldl (applyFlag h) s js)"
  proof (rule foldl_invariant [where I = ?I])
    show "?I s" by simp
  next
    fix t :: "'f FlagSet" and j assume j: "j \<in> set js" and I: "?I t"
    have d: "map flagDecl (flags t) = map flagDecl (flags s)" using I by simp
    have wft: "wfFlags t" using wf wfFlags_decl [OF d] by simp
    have len: "length (flags t) = length (flags s)" using d by (rule decl_length)
    have jl: "j < length (flags t)" using js(2) j len by simp
    have ji: "j \<noteq> i" using js(1) j by auto
    have "f_fieldIndex (flags t ! j) = f_fieldIndex (flags s ! j)"
      using decl_fields(1) [OF d jl] .
    moreover have "f_fieldIndex (flags s ! j) \<noteq> ?ix"
      using own jl ji len by (simp add: wf_index_neq)
    ultimately have "?ix \<noteq> f_fieldIndex (flags t ! j)" by simp
    from applyFlag_other_store [OF wft jl this] I show "?I (applyFlag h t j)" by simp
  qed
  then show ?thesis by simp
qed

section \<open>The flag set that New returns\<close>

lemma New_segment:
  assumes "New h options = Inr s"
  obtains p where "segment h options = Inr p"
  using assms by (cases "segment h options") (simp_all add: New_def)

lemma segment_wf:
  assumes seg: "segment h options = Inr p"
  shows "wfFlags p"
proof -
  from seg obtain d fl where "Flags options = Some d"
    and fl: "structToFlags h (structType d) = Inr fl"
    and st: "map flagStatic (flags p) = map flagStatic fl"
    and "flagsRaw p = d" "argsInRange p"
    by (rule segment_Inr)
  have "map f_id (map flagStatic (flags p)) = map f_id (map flagStatic fl)"
    by (simp only: st)
  then have m: "map f_id (flags p) = map f_id fl"
    by (simp add: comp_def)
  show "wfFlags p"
    using structToFlags_Inr(1,2) [OF fl]
    by (simp add: wfFlags_def m)
qed

lemma zeroValue_supported:
  "ty \<in> set supportedFlagTypes \<Longrightarrow> ty \<noteq> ''struct'' \<Longrightarrow> \<exists>z. zeroValue ty = Inr z"
  by (auto simp: supportedFlagTypes_def zeroValue_def)

text \<open>The field of the flag at position \<open>i\<close> in the flag set that \<open>New\<close> returns.\<close>

lemma New_store:
  assumes seg: "segment h options = Inr p" and new: "New h options = Inr s"
    and own: "ownPath p i" and i: "i < length (flags p)"
  shows "fieldValue (flagsRaw s) (f_fieldIndex (flags p ! i)) = resolvedField h (applyValues h p) i"
    "canSet (flagsRaw s) = canSet (flagsRaw p)"
proof -
  let ?r1 = "applyValues h p"
  have d1: "map flagDecl (flags ?r1) = map flagDecl (flags p)" by simp
  have wf1: "wfFlags ?r1" using segment_wf [OF seg] wfFlags_decl [OF d1] by simp
  have i1: "i < length (flags ?r1)" using i by simp
  have own1: "ownPath ?r1 i" using own ownPath_decl [OF d1 i1] by simp
  have ix: "f_fieldIndex (flags ?r1 ! i) = f_fieldIndex (flags p ! i)"
    using decl_fields(1) [OF d1 i1] .
  show "fieldValue (flagsRaw s) (f_fieldIndex (flags p ! i)) = resolvedField h ?r1 i"
    using resolveValues_store [OF wf1 own1 i1, of h] by (simp add: New_frame(7) [OF seg new] ix)
  show "canSet (flagsRaw s) = canSet (flagsRaw p)"
    by (simp add: New_frame(7) [OF seg new])
qed

lemma flagErrors_arg:
  assumes "i < length (flags s)" "a \<in> set (f_args (flags s ! i))" "a_err (args s ! a) = Some e"
  shows "e \<in> set (Errors s)"
proof -
  have "e \<in> set (flagErrors s (flags s ! i))"
    using assms(2,3) by (force simp: flagErrors_def)
  then show ?thesis using assms(1) by (auto simp: Errors_def)
qed

section \<open>An argument error rolls the flag back\<close>

lemma zeroValue_cases:
  "zeroValue ty = Inr z \<Longrightarrow>
   (z, ty) \<in> {(VBool False, ''bool''), (VFloat 0, ''float64''), (VInt 0, ''int''),
              (VInt 0, ''int64''), (VUint 0, ''uint''), (VUint 0, ''uint64''),
              (VString [], ''string''), (VBools [], ''[]bool''), (VFloats [], ''[]float64''),
              (VInts [], ''[]int''), (VInts [], ''[]int64''), (VUints [], ''[]uint''),
              (VUints [], ''[]uint64''), (VStrings [], ''[]string'')}"
  by (simp add: zeroValue_def split: if_splits)

text \<open>
  The unexported field of \<open>unexportedOptions\<close>: the flag is set by its only argument,
  the argument carries the error of \<open>setFlag\<close>, and \<open>unsetFlag\<close> fails as well: the field
  keeps the value 7.
\<close>

theorem unsettable_field_is_not_unset:
  "\<not> isl (New exHost unexportedOptions)
   \<and> map f_valueBy (flags (projr (New exHost unexportedOptions))) = [''arg'']
   \<and> map f_args (flags (projr (New exHost unexportedOptions))) = [[0]]
   \<and> map a_err (args (projr (New exHost unexportedOptions)))
        = [Some (''flag n can'' @ [CHR 0x27] @ ''t be set'')]
   \<and> fieldValue (flagsRaw (projr (New exHost unexportedOptions))) [0] = VInt 7"
  by code_simp

text \<open>
  C5. When a flag is set by an argument and an argument of the flag carries an error,
  the field of the flag is rolled back to the zero value of its type (false, 0, the
  empty string, the nil slice), and the error of the argument is kept: \<open>Errors\<close> reports
  it. The field of the flag can be set, and no other flag has its index path.
\<close>

theorem argument_error_unsets_flag:
  fixes h :: "('f::zero) Host"
  assumes new: "New h options = Inr s"
    and i: "i < length (flags s)"
    and vb: "f_valueBy (flags s ! i) = ''arg''"
    and a: "a \<in> set (f_args (flags s ! i))"
    and e: "a_err (args s ! a) = Some e"
    and cs: "canSet (flagsRaw s) (f_fieldIndex (flags s ! i))"
    and own: "\<forall>j < length (flags s). j \<noteq> i
                \<longrightarrow> f_fieldIndex (flags s ! j) \<noteq> f_fieldIndex (flags s ! i)"
  shows "(fieldValue (flagsRaw s) (f_fieldIndex (flags s ! i)), f_valueType (flags s ! i))
           \<in> {(VBool False, ''bool''), (VFloat 0, ''float64''), (VInt 0, ''int''),
               (VInt 0, ''int64''), (VUint 0, ''uint''), (VUint 0, ''uint64''),
               (VString [], ''string''), (VBools [], ''[]bool''), (VFloats [], ''[]float64''),
               (VInts [], ''[]int''), (VInts [], ''[]int64''), (VUints [], ''[]uint''),
               (VUints [], ''[]uint64''), (VStrings [], ''[]string'')}
       \<and> e \<in> set (Errors s)"
proof -
  from new obtain p where seg: "segment h options = Inr p" by (rule New_segment)
  let ?r1 = "applyValues h p"
  note fr = New_frame [OF seg new]
  have ip: "i < length (flags p)" using i by (simp add: fr)
  have i1: "i < length (flags ?r1)" using ip by simp
  have d1: "map flagDecl (flags ?r1) = map flagDecl (flags p)" by simp
  note fs = decl_fields [OF fr(2) i] and f1 = decl_fields [OF d1 i1]
  have owns: "ownPath s i" using own by (simp add: ownPath_def)
  have ownp: "ownPath p i" using owns ownPath_decl [OF fr(2) i] by simp
  have rp: "argsInRange p" using seg by (rule segment_Inr)
  have vb1: "f_valueBy (flags ?r1 ! i) = ''arg''"
  proof (rule ccontr)
    assume n: "f_valueBy (flags ?r1 ! i) \<noteq> ''arg''"
    have "f_valueBy (flags s ! i) = f_valueBy (flags (resolveValues h ?r1) ! i)"
      using fr(6) i by (metis length_map nth_map)
    then show False using vb n i1 by (simp add: resolveValues_valueBy split: if_splits)
  qed
  have kind: "f_kind (flags p ! i) = ''arg''"
    using vb1 ip rp segment_fresh(1) [OF seg ip]
    by (simp add: applyValues_valueBy split: if_splits)
  have ty: "f_valueType (flags p ! i) \<in> set supportedFlagTypes" "f_valueType (flags p ! i) \<noteq> ''struct''"
    using segment_fresh(3,4) [OF seg ip] kind by simp_all
  then obtain z :: "'f fval" where z: "zeroValue (f_valueType (flags p ! i)) = Inr z"
    using zeroValue_supported by blast
  have err: "\<exists>a \<in> set (f_args (flags p ! i)). a_err (args ?r1 ! a) \<noteq> None"
    using a e by (auto simp: fs fr(3) [symmetric])
  have cs1: "canSet (flagsRaw ?r1) (f_fieldIndex (flags p ! i))"
    using cs by (simp add: New_store(2) [OF seg new ownp ip] fs)
  have "resolvedField h ?r1 i = z"
    using vb1 err cs1 z by (simp add: resolvedField_def unsetResult_def Let_def f1)
  then have "fieldValue (flagsRaw s) (f_fieldIndex (flags p ! i)) = z"
    using New_store(1) [OF seg new ownp ip] by simp
  then have "fieldValue (flagsRaw s) (f_fieldIndex (flags s ! i)) = z"
    "zeroValue (f_valueType (flags s ! i)) = Inr z"
    using z by (simp_all add: fs)
  then have "(fieldValue (flagsRaw s) (f_fieldIndex (flags s ! i)), f_valueType (flags s ! i))
           \<in> {(VBool False, ''bool''), (VFloat 0, ''float64''), (VInt 0, ''int''),
               (VInt 0, ''int64''), (VUint 0, ''uint''), (VUint 0, ''uint64''),
               (VString [], ''string''), (VBools [], ''[]bool''), (VFloats [], ''[]float64''),
               (VInts [], ''[]int''), (VInts [], ''[]int64''), (VUints [], ''[]uint''),
               (VUints [], ''[]uint64''), (VStrings [], ''[]string'')}"
    using zeroValue_cases [of "f_valueType (flags s ! i)" z] by simp
  moreover have "e \<in> set (Errors s)" using i a e by (rule flagErrors_arg)
  ultimately show ?thesis by simp
qed

text \<open>With \<open>listOptions\<close> the first loop appends 1 to the slice before the piece x fails,
  and the second loop leaves the nil slice.\<close>

theorem argument_error_unsets_flag_witness:
  "fieldValue (flagsRaw (projr (segment exHost listOptions))) [0] = VInts [5]
   \<and> fieldValue (flagsRaw (applyValues exHost (projr (segment exHost listOptions)))) [0] = VInts [5, 1]
   \<and> map f_valueBy (flags (projr (New exHost listOptions))) = [''arg'']
   \<and> map f_args (flags (projr (New exHost listOptions))) = [[0]]
   \<and> map a_err (args (projr (New exHost listOptions)))
        = [Some (''failed to parse '' @ [CHR 0x27] @ ''x'' @ [CHR 0x27] @ '' as int'')]
   \<and> fieldValue (flagsRaw (projr (New exHost listOptions))) [0] = VInts []
   \<and> Errors (projr (New exHost listOptions))
        = [''failed to parse '' @ [CHR 0x27] @ ''x'' @ [CHR 0x27] @ '' as int'']"
proof -
  let ?s = "projr (New exHost listOptions)"
  let ?e = "''failed to parse '' @ [CHR 0x27] @ ''x'' @ [CHR 0x27] @ '' as int''"
  have "\<not> isl (New exHost listOptions)" by code_simp
  then have new: "New exHost listOptions = Inr ?s" by simp
  have i: "0 < length (flags ?s)" by code_simp
  have vb: "f_valueBy (flags ?s ! 0) = ''arg''" by code_simp
  have a: "0 \<in> set (f_args (flags ?s ! 0))" by code_simp
  have e: "a_err (args ?s ! 0) = Some ?e" by code_simp
  have cs: "canSet (flagsRaw ?s) (f_fieldIndex (flags ?s ! 0))" by code_simp
  have own: "\<forall>j < length (flags ?s). j \<noteq> 0
                \<longrightarrow> f_fieldIndex (flags ?s ! j) \<noteq> f_fieldIndex (flags ?s ! 0)"
  proof -
    have "length (flags ?s) = 1" by code_simp
    then show ?thesis by simp
  qed
  have ix: "f_fieldIndex (flags ?s ! 0) = [0]" by code_simp
  have ty: "f_valueType (flags ?s ! 0) = ''[]int''" by code_simp
  have r1: "fieldValue (flagsRaw (projr (segment exHost listOptions))) [0] = VInts [5]" by code_simp
  have r2: "fieldValue (flagsRaw (applyValues exHost (projr (segment exHost listOptions)))) [0] = VInts [5, 1]"
    by code_simp
  have r3: "map f_valueBy (flags ?s) = [''arg'']" by code_simp
  have r4: "map f_args (flags ?s) = [[0]]" by code_simp
  have r5: "map a_err (args ?s) = [Some ?e]" by code_simp
  have r6: "Errors ?s = [?e]" by code_simp
  from argument_error_unsets_flag [OF new i vb a e cs own] ix ty r1 r2 r3 r4 r5 r6
  show ?thesis by simp
qed

section \<open>Required flags\<close>












end
